theory Spec2Isabelle
  imports Main
begin

section \<open>Python values used by the build tracer\<close>

text \<open>
  The exceptions the modelled functions can raise. A function that may raise returns
  \<open>py_error + 'a\<close>, with \<open>Inl\<close> for the exception.
\<close>

datatype py_error =
    IndexError
  | KeyError
  | ValueError
  | AssertionError
  | TypeError
  | AttributeError
  | NotImplementedError
  | RecursionError

text \<open>
  Python list indexing \<open>xs[i]\<close>: a negative index counts from the end, an index outside
  \<open>-len .. len-1\<close> raises IndexError.
\<close>

definition py_index :: "'a list \<Rightarrow> int \<Rightarrow> py_error + 'a" where
  "py_index xs i =
     (let n = int (length xs)
      in if 0 \<le> i \<and> i < n then Inr (xs ! nat i)
         else if - n \<le> i \<and> i < 0 then Inr (xs ! nat (n + i))
         else Inl IndexError)"

text \<open>\<open>'++' in s\<close>: the substring test for the two-character string \<open>++\<close>.\<close>

fun contains_plusplus :: "string \<Rightarrow> bool" where
  "contains_plusplus (a # b # rest) =
     ((a = CHR ''+'' \<and> b = CHR ''+'') \<or> contains_plusplus (b # rest))"
| "contains_plusplus _ = False"

text \<open>
  \<open>s.split(sep)\<close> for a one-character separator: the pieces between the separators;
  never the empty list.
\<close>

fun py_split :: "char \<Rightarrow> string \<Rightarrow> string list" where
  "py_split sep [] = [[]]"
| "py_split sep (c # cs) =
     (if c = sep then [] # py_split sep cs
      else (case py_split sep cs of
              [] \<Rightarrow> [[c]]
            | w # ws \<Rightarrow> (c # w) # ws))"

text \<open>\<open>s.rfind(c)\<close>: the last position of the character, or -1.\<close>

fun rfind_from :: "char \<Rightarrow> string \<Rightarrow> nat \<Rightarrow> int \<Rightarrow> int" where
  "rfind_from c [] pos last_seen = last_seen"
| "rfind_from c (x # xs) pos last_seen =
     rfind_from c xs (Suc pos) (if x = c then int pos else last_seen)"

definition py_rfind :: "char \<Rightarrow> string \<Rightarrow> int" where
  "py_rfind c s = rfind_from c s 0 (- 1)"

text \<open>
  \<open>os.path.splitext(p)[1]\<close> on POSIX: the text from the last dot of the last path
  component on, unless that component has only dots before it; otherwise empty.
\<close>

definition splitext_ext :: "string \<Rightarrow> string" where
  "splitext_ext p =
     (let sepIndex = py_rfind (CHR ''/'') p;
          dotIndex = py_rfind (CHR ''.'') p
      in if dotIndex > sepIndex
            \<and> list_ex (\<lambda>c. c \<noteq> CHR ''.'')
                  (take (nat (dotIndex - sepIndex - 1)) (drop (nat (sepIndex + 1)) p))
         then drop (nat dotIndex) p
         else [])"

text \<open>
  \<open>int(s)\<close> on a string, for ASCII input: surrounding whitespace is stripped, one sign is
  allowed, then decimal digits, where single underscores may stand between digits.
  Anything else raises ValueError (\<open>None\<close> here).
\<close>

definition is_py_space :: "char \<Rightarrow> bool" where
  "is_py_space c = (c \<in> set [CHR '' '', CHR 0x09, CHR 0x0A, CHR 0x0B, CHR 0x0C, CHR 0x0D])"

definition py_strip :: "string \<Rightarrow> string" where
  "py_strip s = rev (dropWhile is_py_space (rev (dropWhile is_py_space s)))"

definition digit_val :: "char \<Rightarrow> int option" where
  "digit_val c =
     (let code = (of_char c :: nat)
      in if 48 \<le> code \<and> code \<le> 57 then Some (int code - 48) else None)"

text \<open>
  The digits of a literal, read left to right into the accumulator; \<open>prev_digit\<close> says
  whether the character before was a digit, which is what an underscore needs on its left.
\<close>

fun py_digits :: "int \<Rightarrow> bool \<Rightarrow> string \<Rightarrow> int option" where
  "py_digits acc prev_digit [] = (if prev_digit then Some acc else None)"
| "py_digits acc prev_digit (c # cs) =
     (if c = CHR ''_'' then (if prev_digit then py_digits acc False cs else None)
      else (case digit_val c of
              None \<Rightarrow> None
            | Some d \<Rightarrow> py_digits (10 * acc + d) True cs))"

definition py_int :: "string \<Rightarrow> int option" where
  "py_int s =
     (case py_strip s of
        [] \<Rightarrow> None
      | c # cs \<Rightarrow>
          if c = CHR ''-'' then map_option uminus (py_digits 0 False cs)
          else if c = CHR ''+'' then py_digits 0 False cs
          else py_digits 0 False (c # cs))"

section \<open>Compiler matcher: version comparison\<close>

text \<open>
  \<open>versiontuple = lambda v: tuple(map(int, (v.split("."))))\<close>: the first component
  that is not an integer raises ValueError.
\<close>

fun map_int :: "string list \<Rightarrow> py_error + int list" where
  "map_int [] = Inr []"
| "map_int (w # ws) =
     (case py_int w of
        None \<Rightarrow> Inl ValueError
      | Some n \<Rightarrow> (case map_int ws of Inl e \<Rightarrow> Inl e | Inr ns \<Rightarrow> Inr (n # ns)))"

definition versiontuple :: "string \<Rightarrow> py_error + int list" where
  "versiontuple v = map_int (py_split (CHR ''.'') v)"

text \<open>
  Python's \<open><\<close> on tuples: the first position where the elements differ decides; with
  no such position the shorter tuple is the smaller.
\<close>

fun tuple_lt :: "int list \<Rightarrow> int list \<Rightarrow> bool" where
  "tuple_lt [] [] = False"
| "tuple_lt [] (y # ys) = True"
| "tuple_lt (x # xs) [] = False"
| "tuple_lt (x # xs) (y # ys) = (if x = y then tuple_lt xs ys else x < y)"

definition version_compare :: "string \<Rightarrow> string \<Rightarrow> py_error + int" where
  "version_compare a b =
     (case versiontuple a of
        Inl e \<Rightarrow> Inl e
      | Inr at \<Rightarrow>
          (case versiontuple b of
             Inl e \<Rightarrow> Inl e
           | Inr bt \<Rightarrow>
               (let at_l = length at;
                    bt_l = length bt;
                    m_l = max at_l bt_l;
                    at' = at @ replicate (m_l - at_l) 0;
                    bt' = bt @ replicate (m_l - bt_l) 0
                in if at' = bt' then Inr 0
                   else if tuple_lt at' bt' then Inr (- 1)
                   else Inr 1)))"

text \<open>
  The comparison in the specification's words: both integer tuples are padded with
  zeros to the longer length and compared lexicographically.
\<close>

definition zero_pad :: "nat \<Rightarrow> int list \<Rightarrow> int list" where
  "zero_pad n xs = xs @ replicate (n - length xs) 0"

definition three_way :: "int list \<Rightarrow> int list \<Rightarrow> int" where
  "three_way p q = (if p = q then 0 else if ord_class.lexordp p q then - 1 else 1)"

definition spec_version_compare :: "int list \<Rightarrow> int list \<Rightarrow> int" where
  "spec_version_compare at bt =
     three_way (zero_pad (max (length at) (length bt)) at)
               (zero_pad (max (length at) (length bt)) bt)"

section \<open>Paths\<close>

text \<open>
  \<open>pathlib.PurePosixPath\<close>: a root (empty, one slash, or exactly two slashes) and the
  components after it. Parsing drops empty components and single dots; it keeps \<open>..\<close>.
  Two paths are equal when root and components are.
\<close>

record posix_path =
  root :: string
  parts :: "string list"

definition splitroot :: "string \<Rightarrow> string \<times> string" where
  "splitroot part =
     (case part of
        [] \<Rightarrow> ([], part)
      | c # _ \<Rightarrow>
          if c = CHR ''/''
          then (let stripped_part = dropWhile (\<lambda>x. x = CHR ''/'') part
                in if length part - length stripped_part = 2 then (''//'', stripped_part)
                   else (''/'', stripped_part))
          else ([], part))"

definition Path :: "string \<Rightarrow> posix_path" where
  "Path s =
     (let (rt, rel) = splitroot s
      in \<lparr>root = rt,
          parts = filter (\<lambda>x. x \<noteq> [] \<and> x \<noteq> ''.'') (py_split (CHR ''/'') rel)\<rparr>)"


section \<open>Languages\<close>

datatype file_type = SOURCE | HEADER | MODULE

datatype language_id = C | CXX

definition source_exts :: "(string \<times> file_type \<times> language_id list) list" where
  "source_exts =
     [(''.c'', SOURCE, [C]),
      (''.h'', HEADER, [C, CXX]),
      (''.C'', SOURCE, [CXX]),
      (''.c++'', SOURCE, [CXX]),
      (''.cc'', SOURCE, [CXX]),
      (''.cpp'', SOURCE, [CXX]),
      (''.cxx'', SOURCE, [CXX]),
      (''.H'', HEADER, [CXX]),
      (''.h++'', HEADER, [CXX]),
      (''.hh'', HEADER, [CXX]),
      (''.hpp'', HEADER, [CXX]),
      (''.hxx'', HEADER, [CXX]),
      (''.ipp'', HEADER, [CXX]),
      (''.cppm'', MODULE, [CXX]),
      (''.ixx'', MODULE, [CXX])]"

section \<open>Compilers\<close>

record compiler_id =
  cid :: string
  like :: "string option"
  version :: string


record compiler_command =
  cwd :: posix_path
  compiler :: compiler_id
  executable :: string
  args :: "string list"

record source_file_compiler_metadata =
  lang :: language_id
  standard :: string

text \<open>
  A row of the default-standard table: the least version it applies to (\<open>None\<close> in the
  first row) and the standard of each language.
\<close>

type_synonym std_row = "string option \<times> (language_id \<times> string) list"

definition std_default :: "(string \<times> std_row list) list" where
  "std_default =
     [(''lcc'',
        [(None, [(C, ''gnu18''), (CXX, ''gnu++14'')]),
         (Some ''1.28.0'', [(C, ''gnu18''), (CXX, ''gnu++17'')])]),
      (''gcc'',
        [(None, [(C, ''gnu90''), (CXX, ''gnu++98'')]),
         (Some ''5.0.0'', [(C, ''gnu11''), (CXX, ''gnu++98'')]),
         (Some ''6.0.0'', [(C, ''gnu11''), (CXX, ''gnu++14'')]),
         (Some ''11.0.0'', [(C, ''gnu17''), (CXX, ''gnu++17'')]),
         (Some ''15.0.0'', [(C, ''gnu23''), (CXX, ''gnu++17'')])]),
      (''clang'',
        [(None, [(C, ''gnu99''), (CXX, ''gnu++98'')]),
         (Some ''3.6.0'', [(C, ''gnu11''), (CXX, ''gnu++98'')]),
         (Some ''6.0.0'', [(C, ''gnu11''), (CXX, ''gnu++14'')]),
         (Some ''11.0.0'', [(C, ''gnu17''), (CXX, ''gnu++14'')]),
         (Some ''16.0.0'', [(C, ''gnu17''), (CXX, ''gnu++17'')])])]"

definition std_ansi :: "(string \<times> (language_id \<times> string) list) list" where
  "std_ansi =
     [(''lcc'', [(C, ''c89''), (CXX, ''c++98'')]),
      (''gcc'', [(C, ''c90''), (CXX, ''c++98'')]),
      (''clang'', [(C, ''c89'')])]"

text \<open>The truth value of \<open>data[i][0]\<close>: \<open>None\<close> and the empty string are false.\<close>

definition truthy :: "string option \<Rightarrow> bool" where
  "truthy v = (case v of None \<Rightarrow> False | Some s \<Rightarrow> s \<noteq> [])"

definition row_std :: "std_row \<Rightarrow> language_id \<Rightarrow> py_error + string" where
  "row_std row l = (case map_of (snd row) l of None \<Rightarrow> Inl KeyError | Some s \<Rightarrow> Inr s)"

text \<open>
  The \<open>while\<close> loop of \<open>get_default_std\<close>, from index \<open>i\<close> downwards. The index may
  become negative, where Python counts from the end, until it leaves the list.
\<close>

function default_std_loop :: "std_row list \<Rightarrow> string \<Rightarrow> language_id \<Rightarrow> int \<Rightarrow> py_error + string" where
  "default_std_loop data ver l i =
     (if i < - int (length data) \<or> int (length data) \<le> i then Inl IndexError
      else (let row = data ! nat (if i < 0 then int (length data) + i else i)
            in if truthy (fst row)
               then (case version_compare (the (fst row)) ver of
                       Inl e \<Rightarrow> Inl e
                     | Inr c \<Rightarrow> if c \<le> 0 then row_std row l
                               else default_std_loop data ver l (i - 1))
               else (case data of [] \<Rightarrow> Inl IndexError | row0 # _ \<Rightarrow> row_std row0 l)))"
  by pat_completeness auto
termination
  by (relation "measure (\<lambda>(data, ver, l, i). nat (i + int (length data) + 1))") auto

declare default_std_loop.simps [simp del]

definition get_default_std :: "compiler_id \<Rightarrow> language_id \<Rightarrow> py_error + string" where
  "get_default_std c l =
     (case map_of std_default (cid c) of
        None \<Rightarrow> Inl KeyError
      | Some data \<Rightarrow> default_std_loop data (version c) l (int (length data) - 1))"

definition get_ansi_std :: "compiler_id \<Rightarrow> language_id \<Rightarrow> py_error + string option" where
  "get_ansi_std c l =
     (case map_of std_ansi (cid c) of
        None \<Rightarrow> Inl KeyError
      | Some table \<Rightarrow> Inr (map_of table l))"


text \<open>
  \<open>re.match(r"^-?-std=(?P<std>.*)$", arg)\<close>: the dot matches no newline, and the
  dollar matches at the end or before one final newline. The result is the named group.
\<close>

definition match_std_arg :: "string \<Rightarrow> string option" where
  "match_std_arg arg =
     (let rest = (if take 5 arg = ''-std='' then Some (drop 5 arg)
                  else if take 6 arg = ''--std='' then Some (drop 6 arg)
                  else None)
      in case rest of
           None \<Rightarrow> None
         | Some r \<Rightarrow>
             (let std = takeWhile (\<lambda>c. c \<noteq> CHR 0x0A) r;
                  tail = dropWhile (\<lambda>c. c \<noteq> CHR 0x0A) r
              in if tail = [] \<or> tail = [CHR 0x0A] then Some std else None))"

text \<open>
  The loop over \<open>enumerate(cc_command.args)\<close> that looks for the standard;
  \<open>args[i+1]\<close> is the head of the remaining arguments.
\<close>

fun scan_std :: "string list \<Rightarrow> py_error + string option" where
  "scan_std [] = Inr None"
| "scan_std (arg # rest) =
     (case match_std_arg arg of
        Some s \<Rightarrow> Inr (Some s)
      | None \<Rightarrow>
          if arg = ''--std''
          then (case rest of [] \<Rightarrow> Inl IndexError | nxt # _ \<Rightarrow> Inr (Some nxt))
          else scan_std rest)"

definition std_language :: "string \<Rightarrow> language_id" where
  "std_language s = (if contains_plusplus s then CXX else C)"

definition get_source_metadata ::
  "compiler_command \<Rightarrow> string \<Rightarrow> py_error + source_file_compiler_metadata" where
  "get_source_metadata cc_command source =
     (case scan_std (args cc_command) of
        Inl e \<Rightarrow> Inl e
      | Inr std \<Rightarrow>
     (let std_lang = map_option std_language std
      in case args cc_command of
        [] \<Rightarrow> Inl IndexError
      | argv0 # _ \<Rightarrow>
     (let frontend_lang = std_language argv0
      in case map_of source_exts (splitext_ext source) of
        None \<Rightarrow> Inl KeyError
      | Some ext_meta \<Rightarrow>
     (case snd ext_meta of
        [] \<Rightarrow> Inl IndexError
      | file_lang # _ \<Rightarrow>
          if fst ext_meta \<noteq> SOURCE then Inl AssertionError
          else
     (let ret_lang = (if frontend_lang = CXX then CXX else file_lang);
          ret_std = (if std_lang \<noteq> None \<and> std_lang \<noteq> Some ret_lang then None else std)
      in case (if ret_std = None \<and> std = None \<and> ''-ansi'' \<in> set (args cc_command)
               then get_ansi_std (compiler cc_command) ret_lang
               else Inr ret_std) of
        Inl e \<Rightarrow> Inl e
      | Inr (Some s) \<Rightarrow> Inr \<lparr>lang = ret_lang, standard = s\<rparr>
      | Inr None \<Rightarrow>
          (case get_default_std (compiler cc_command) ret_lang of
             Inl e \<Rightarrow> Inl e
           | Inr s \<Rightarrow> Inr \<lparr>lang = ret_lang, standard = s\<rparr>))))))"

text \<open>
  Helpers for reasoning about the default-standard table: the parsed least version of a
  row, whether a row applies to a version, and the index the downward scan stops at.
\<close>

definition row_version :: "std_row \<Rightarrow> int list option" where
  "row_version r =
     (case fst r of
        None \<Rightarrow> None
      | Some m \<Rightarrow> (case versiontuple m of Inl _ \<Rightarrow> None | Inr mt \<Rightarrow> Some mt))"

definition row_applies :: "std_row \<Rightarrow> int list \<Rightarrow> bool" where
  "row_applies r vt =
     (case row_version r of None \<Rightarrow> False | Some mt \<Rightarrow> spec_version_compare mt vt \<le> 0)"

fun scan_stop :: "std_row list \<Rightarrow> int list \<Rightarrow> nat \<Rightarrow> nat" where
  "scan_stop data vt 0 = 0"
| "scan_stop data vt (Suc k) =
     (if row_applies (data ! Suc k) vt then Suc k else scan_stop data vt k)"

text \<open>
  The shape all three tables have: an unversioned first row, then rows with dotted-integer
  versions in ascending order, every row giving both languages.
\<close>

definition wf_table :: "std_row list \<Rightarrow> bool" where
  "wf_table data =
     (case data of
        [] \<Rightarrow> False
      | r0 # rs \<Rightarrow>
          fst r0 = None
          \<and> list_all (\<lambda>r. truthy (fst r) \<and> row_version r \<noteq> None) rs
          \<and> sorted_wrt (\<lambda>a b. spec_version_compare (the (row_version a)) (the (row_version b)) \<le> 0) rs
          \<and> list_all (\<lambda>r. map_of (snd r) C \<noteq> None \<and> map_of (snd r) CXX \<noteq> None) data)"

text \<open>
  The selection in the specification's words: the row with the greatest least-version that
  is at most the given version, or the first, unversioned row when no versioned row
  qualifies.
\<close>

definition is_selected_row :: "std_row list \<Rightarrow> int list \<Rightarrow> std_row \<Rightarrow> bool" where
  "is_selected_row data vt row =
     (row \<in> set data \<and>
      (case row_version row of
         Some mt \<Rightarrow>
           spec_version_compare mt vt \<le> 0
           \<and> (\<forall>r \<in> set data. \<forall>mt'. row_version r = Some mt' \<and> spec_version_compare mt' vt \<le> 0
                 \<longrightarrow> spec_version_compare mt' mt \<le> 0)
       | None \<Rightarrow>
           row = hd data
           \<and> (\<forall>r \<in> set data. \<forall>mt'. row_version r = Some mt' \<longrightarrow> 0 < spec_version_compare mt' vt)))"

text \<open>The gcc rows as the specification lists them.\<close>

definition gcc_rows :: "int list \<Rightarrow> language_id \<Rightarrow> string" where
  "gcc_rows vt l =
     (if spec_version_compare vt [5, 0, 0] < 0 then (case l of C \<Rightarrow> ''gnu90'' | CXX \<Rightarrow> ''gnu++98'')
      else if spec_version_compare vt [6, 0, 0] < 0 then (case l of C \<Rightarrow> ''gnu11'' | CXX \<Rightarrow> ''gnu++98'')
      else if spec_version_compare vt [11, 0, 0] < 0 then (case l of C \<Rightarrow> ''gnu11'' | CXX \<Rightarrow> ''gnu++14'')
      else if spec_version_compare vt [15, 0, 0] < 0 then (case l of C \<Rightarrow> ''gnu17'' | CXX \<Rightarrow> ''gnu++17'')
      else (case l of C \<Rightarrow> ''gnu23'' | CXX \<Rightarrow> ''gnu++17''))"

text \<open>
  The language rule of the specification: the front end named by \<open>argv[0]\<close> wins over
  the language of the file.
\<close>

definition effective_language :: "string \<Rightarrow> language_id \<Rightarrow> language_id" where
  "effective_language argv0 file_lang = (if contains_plusplus argv0 then CXX else file_lang)"

text \<open>
  The specification's two fallback steps for an unset standard, in its own words: with
  \<open>-ansi\<close> in the argument vector the entry of the ansi table, otherwise (or when that
  table has no entry) the default-standard table.
\<close>

definition spec_ansi_default_rules :: "compiler_command \<Rightarrow> language_id \<Rightarrow> py_error + string" where
  "spec_ansi_default_rules cc_command l =
     (if ''-ansi'' \<in> set (args cc_command)
      then (case get_ansi_std (compiler cc_command) l of
              Inl e \<Rightarrow> Inl e
            | Inr (Some s) \<Rightarrow> Inr s
            | Inr None \<Rightarrow> get_default_std (compiler cc_command) l)
      else get_default_std (compiler cc_command) l)"

text \<open>
  Two conditions on an argument vector: every \<open>--std\<close> has an argument after it; and
  the scan for the standard reaches a \<open>--std\<close> in last position, with nothing before it
  that selects a standard.
\<close>

definition every_std_followed :: "string list \<Rightarrow> bool" where
  "every_std_followed argv = (\<forall>i < length argv. argv ! i = ''--std'' \<longrightarrow> Suc i < length argv)"

definition std_scan_overruns :: "string list \<Rightarrow> bool" where
  "std_scan_overruns argv =
     (argv \<noteq> [] \<and> last argv = ''--std''
      \<and> list_all (\<lambda>a. match_std_arg a = None \<and> a \<noteq> ''--std'') (butlast argv))"

section \<open>System-call records and process traces\<close>

text \<open>
  The decoded arguments of a system call are a list of mixed Python values: strings,
  lists of strings, pairs of a descriptor and a path, and the \<open>how\<close> dictionary of
  \<open>openat2\<close>.
\<close>

datatype py_arg =
    Str string
  | NoneArg
  | StrList "string list"
  | FdPath int string
  | DirFd string "string option"
  | How "(string \<times> string) list"

record sys_call_error =
  errno :: string
  errstr :: "string option"

text \<open>
  Timestamps are floats read from decimal text; such floats are never NaN, so they are
  linearly ordered, and the type \<open>'ts\<close> stands for them.
\<close>

record 'ts sys_call_entity =
  ts :: 'ts
  name :: string
  returnvalue :: int
  returnfile :: "string option"
  error :: "sys_call_error option"
  args_raw :: "string option"
  sc_args :: "py_arg list"

record 'ts proc_trace =
  pid :: int
  ts_start :: "'ts option"
  ts_end :: "'ts option"
  exitcode :: "int option"
  killedby :: "string option"
  syscall :: "'ts sys_call_entity list"

type_synonym open_file = "posix_path \<times> py_arg list"

record compiler_call =
  call_pid :: int
  call_exitcode :: "int option"
  command :: compiler_command
  open_files :: "open_file list"

section \<open>Preprocessor driver: prefilter\<close>

text \<open>\<open>CompilerCommand.as_tuple\<close>, the key of the counters.\<close>

definition as_tuple :: "compiler_command \<Rightarrow> posix_path \<times> compiler_id \<times> string \<times> string list" where
  "as_tuple c = (cwd c, compiler c, executable c, args c)"

text \<open>
  \<open>collections.Counter\<close>: a dictionary in insertion order whose missing keys count 0.
\<close>

fun counter_add :: "'k \<Rightarrow> ('k \<times> nat) list \<Rightarrow> ('k \<times> nat) list" where
  "counter_add k [] = [(k, 1)]"
| "counter_add k ((k', n) # rest) =
     (if k' = k then (k', n + 1) # rest else (k', n) # counter_add k rest)"

definition counter_get :: "('k \<times> nat) list \<Rightarrow> 'k \<Rightarrow> nat" where
  "counter_get counters k = (case map_of counters k of None \<Rightarrow> 0 | Some n \<Rightarrow> n)"

text \<open>The second loop, which yields the calls that pass all three tests, in order.\<close>

fun prefilter_loop ::
  "((posix_path \<times> compiler_id \<times> string \<times> string list) \<times> nat) list \<Rightarrow> compiler_call list
    \<Rightarrow> compiler_call list" where
  "prefilter_loop counters [] = []"
| "prefilter_loop counters (cc # rest) =
     (if call_exitcode cc \<noteq> Some 0 then prefilter_loop counters rest
      else if length (open_files cc) = 0 then prefilter_loop counters rest
      else if counter_get counters (as_tuple (command cc)) > 1 then prefilter_loop counters rest
      else cc # prefilter_loop counters rest)"

definition compiler_calls_prefilter :: "compiler_call list \<Rightarrow> compiler_call list" where
  "compiler_calls_prefilter compiler_calls =
     (let counters = fold (\<lambda>cc counters. counter_add (as_tuple (command cc)) counters)
                          compiler_calls []
      in prefilter_loop counters compiler_calls)"

text \<open>
  The specification's key of an invocation: working directory, compiler id (id, family and
  version), executable and argument vector, each compared for equality.
\<close>

definition same_invocation :: "compiler_command \<Rightarrow> compiler_command \<Rightarrow> bool" where
  "same_invocation a b =
     (cwd a = cwd b
      \<and> cid (compiler a) = cid (compiler b)
      \<and> like (compiler a) = like (compiler b)
      \<and> version (compiler a) = version (compiler b)
      \<and> executable a = executable b
      \<and> args a = args b)"

text \<open>How many calls of a list are the same invocation as a command.\<close>

definition multiplicity :: "compiler_call list \<Rightarrow> compiler_command \<Rightarrow> nat" where
  "multiplicity calls c = length (filter (\<lambda>cc. same_invocation (command cc) c) calls)"

text \<open>
  A successful compiler call of process \<open>p\<close> in directory \<open>dir\<close> with one attributed
  open file, for gcc of the given version.
\<close>

definition probe_call :: "int \<Rightarrow> string \<Rightarrow> string \<Rightarrow> string \<Rightarrow> string list \<Rightarrow> compiler_call" where
  "probe_call p dir ver exe argv =
     \<lparr>call_pid = p, call_exitcode = Some 0,
      command = \<lparr>cwd = Path dir,
                 compiler = \<lparr>cid = ''gcc'', like = None, version = ver\<rparr>,
                 executable = exe, args = argv\<rparr>,
      open_files = [(Path dir, [Str ''conftest.c'', Str ''O_RDONLY''])]\<rparr>"

section \<open>Compiler matcher: the preprocessor command\<close>

text \<open>
  \<open>CompilerCommand\<close> objects are mutable and passed by reference. The store holds the
  objects; a reference is a position in it. \<open>copy.deepcopy\<close> allocates a new object
  with the same field values and returns the reference to it.
\<close>

type_synonym store = "compiler_command list"


definition set_args :: "store \<Rightarrow> nat \<Rightarrow> string list \<Rightarrow> store" where
  "set_args h r new_args = h[r := (h ! r)\<lparr>args := new_args\<rparr>]"


text \<open>\<open>str(path)\<close> of a POSIX path.\<close>

fun join_slash :: "string list \<Rightarrow> string" where
  "join_slash [] = []"
| "join_slash [x] = x"
| "join_slash (x # y # rest) = x @ ''/'' @ join_slash (y # rest)"

definition path_str :: "posix_path \<Rightarrow> string" where
  "path_str p = (if root p = [] \<and> parts p = [] then ''.'' else root p @ join_slash (parts p))"

text \<open>
  The loop over \<open>compiler.ids()\<close>. The first id among lcc, gcc and clang decides; with none
  the final assertion fails. The ids are strings here, so the test for \<open>None\<close> of the
  source never holds.
\<close>

fun rewrite_for_ids ::
  "store \<Rightarrow> nat \<Rightarrow> nat option \<Rightarrow> posix_path \<Rightarrow> int \<Rightarrow> string list \<Rightarrow> string list
    \<Rightarrow> store \<times> (py_error + nat)" where
  "rewrite_for_ids h pc o_idx preprocessed_result_file source_idx sources_in_args [] =
     (h, Inl AssertionError)"
| "rewrite_for_ids h pc o_idx preprocessed_result_file source_idx sources_in_args (i # rest) =
     (if i \<in> set [''lcc'', ''gcc'', ''clang'']
      then (if ''-E'' \<in> set (args (h ! pc)) then (h, Inl ValueError)
            else (let e_args = [''-E'', ''-o'', path_str preprocessed_result_file];
                      a = args (h ! pc);
                      a' = (case o_idx of
                              Some k \<Rightarrow> take k a @ e_args @ drop (k + 2) a
                            | None \<Rightarrow> take 1 a @ e_args @ drop 1 a);
                      h' = set_args h pc a'
                  in case py_index sources_in_args source_idx of
                       Inl e \<Rightarrow> (h', Inl e)
                     | Inr src \<Rightarrow> (set_args h' pc (a' @ [src]), Inr pc)))
      else rewrite_for_ids h pc o_idx preprocessed_result_file source_idx sources_in_args rest)"



section \<open>Syscall parser\<close>

text \<open>
  \<open>SysCallFilter.allow\<close>: a record with a negative return value is not kept.
\<close>

definition allow :: "'ts sys_call_entity \<Rightarrow> bool" where
  "allow sc = (if returnvalue sc < 0 then False else True)"

text \<open>
  The named groups of a match of \<open>regex_line\<close>, with the timestamp already converted by
  \<open>float\<close> and the numbers by \<open>int\<close>. The regular expressions themselves are
  parameters of the parser model: \<open>regex_line\<close> maps a stripped line to its groups or to
  \<open>None\<close>, \<open>decode_xstr\<close> undoes the escaping of a string, and \<open>decode_args\<close> stands for
  the per-call expressions of execve, chdir, fchdir, open, openat and openat2 with the
  construction of the argument list (it raises where the source does).
\<close>

record 'ts line_groups =
  g_timestamp :: 'ts
  g_killedby :: "string option"
  g_exitcode :: "int option"
  g_syscall :: "string option"
  g_args :: "string option"
  g_returnvalue :: "int option"
  g_returnfile :: "string option"
  g_errno :: "string option"
  g_errstr :: "string option"

text \<open>\<open>str.strip\<close> and \<open>str.rstrip\<close> without argument, on ASCII text.\<close>

definition is_str_space :: "char \<Rightarrow> bool" where
  "is_str_space c = (c \<in> set [CHR '' '', CHR 0x09, CHR 0x0A, CHR 0x0B, CHR 0x0C, CHR 0x0D,
                                CHR 0x1C, CHR 0x1D, CHR 0x1E, CHR 0x1F])"

definition str_rstrip :: "string \<Rightarrow> string" where
  "str_rstrip s = rev (dropWhile is_str_space (rev s))"

definition str_strip :: "string \<Rightarrow> string" where
  "str_strip s = str_rstrip (dropWhile is_str_space s)"

text \<open>The branch on the name of the call that fills in the arguments.\<close>

definition parse_syscall_args ::
  "(string \<Rightarrow> string \<Rightarrow> py_error + py_arg list) \<Rightarrow> string
    \<Rightarrow> 'ts sys_call_entity \<Rightarrow> py_error + 'ts sys_call_entity" where
  "parse_syscall_args decode_args raw sc =
     (if name sc = ''fork'' then Inr sc
      else if name sc = ''vfork'' then Inr sc
      else if name sc = ''clone'' then Inr (sc\<lparr>args_raw := Some raw\<rparr>)
      else if name sc = ''clone2'' then Inr (sc\<lparr>args_raw := Some raw\<rparr>)
      else if name sc = ''clone3'' then Inr (sc\<lparr>args_raw := Some raw\<rparr>)
      else if name sc = ''execveat'' then Inl NotImplementedError
      else if name sc \<in> set [''execve'', ''chdir'', ''fchdir'', ''open'', ''openat'', ''openat2'']
      then (case decode_args (name sc) raw of
              Inl e \<Rightarrow> Inl e
            | Inr decoded \<Rightarrow> Inr (sc\<lparr>sc_args := sc_args sc @ decoded\<rparr>))
      else Inr (sc\<lparr>args_raw := Some raw\<rparr>))"

text \<open>
  The two assignments that widen the interval of the trace to a new timestamp:
  \<open>ts_start\<close> becomes the minimum and \<open>ts_end\<close> the maximum.
\<close>

definition update_timestamps :: "('ts::linorder) proc_trace \<Rightarrow> 'ts \<Rightarrow> 'ts proc_trace" where
  "update_timestamps proc v_timestamp =
     proc\<lparr>ts_start := Some (case ts_start proc of
                               None \<Rightarrow> v_timestamp
                             | Some s \<Rightarrow> min s v_timestamp),
           ts_end := Some (case ts_end proc of
                             None \<Rightarrow> v_timestamp
                           | Some e \<Rightarrow> max e v_timestamp)\<rparr>"

text \<open>The record built from a line that matched the syscall alternative.\<close>

definition new_syscall ::
  "(string \<Rightarrow> string) \<Rightarrow> 'ts line_groups \<Rightarrow> string \<Rightarrow> int \<Rightarrow> 'ts sys_call_entity" where
  "new_syscall decode_xstr m v_syscall rv =
     \<lparr>ts = g_timestamp m, name = v_syscall, returnvalue = rv,
      returnfile = map_option decode_xstr (g_returnfile m),
      error = (case g_errno m of
                 None \<Rightarrow> None
               | Some en \<Rightarrow> Some \<lparr>errno = en, errstr = g_errstr m\<rparr>),
      args_raw = None, sc_args = []\<rparr>"

text \<open>The loop over the lines of the trace file.\<close>

fun parse_lines ::
  "(string \<Rightarrow> ('ts::linorder) line_groups option) \<Rightarrow> (string \<Rightarrow> string)
    \<Rightarrow> (string \<Rightarrow> string \<Rightarrow> py_error + py_arg list)
    \<Rightarrow> 'ts proc_trace \<Rightarrow> string list \<Rightarrow> py_error + 'ts proc_trace" where
  "parse_lines regex_line decode_xstr decode_args proc [] = Inr proc"
| "parse_lines regex_line decode_xstr decode_args proc (line # rest) =
     (case regex_line (str_rstrip line) of
        None \<Rightarrow> parse_lines regex_line decode_xstr decode_args proc rest
      | Some m \<Rightarrow>
     (let proc1 = update_timestamps proc (g_timestamp m)
      in if g_killedby m \<noteq> None
         then parse_lines regex_line decode_xstr decode_args
                (proc1\<lparr>killedby := g_killedby m\<rparr>) rest
         else if g_exitcode m \<noteq> None
         then parse_lines regex_line decode_xstr decode_args
                (proc1\<lparr>exitcode := g_exitcode m\<rparr>) rest
         else (case g_syscall m of
                 None \<Rightarrow> parse_lines regex_line decode_xstr decode_args proc1 rest
               | Some v_syscall \<Rightarrow>
            (case g_returnvalue m of
               None \<Rightarrow> Inl TypeError
             | Some rv \<Rightarrow>
            (case (case g_args m of
                     None \<Rightarrow> Inr (new_syscall decode_xstr m v_syscall rv)
                   | Some v_args \<Rightarrow>
                       parse_syscall_args decode_args (str_strip v_args)
                         (new_syscall decode_xstr m v_syscall rv)) of
               Inl e \<Rightarrow> Inl e
             | Inr sc \<Rightarrow>
                 if allow sc
                 then parse_lines regex_line decode_xstr decode_args
                        (proc1\<lparr>syscall := syscall proc1 @ [sc]\<rparr>) rest
                 else parse_lines regex_line decode_xstr decode_args proc1 rest)))))"

definition parse_fd ::
  "(string \<Rightarrow> ('ts::linorder) line_groups option) \<Rightarrow> (string \<Rightarrow> string)
    \<Rightarrow> (string \<Rightarrow> string \<Rightarrow> py_error + py_arg list)
    \<Rightarrow> int \<Rightarrow> string list \<Rightarrow> py_error + 'ts proc_trace" where
  "parse_fd regex_line decode_xstr decode_args p lines =
     (case parse_lines regex_line decode_xstr decode_args
             \<lparr>pid = p, ts_start = None, ts_end = None, exitcode = None, killedby = None,
              syscall = []\<rparr> lines of
        Inl e \<Rightarrow> Inl e
      | Inr proc \<Rightarrow> Inr (proc\<lparr>syscall := sort_key ts (syscall proc)\<rparr>))"

text \<open>
  What holds of the trace while the lines are read: no kept record has a negative return
  value, and the interval is either unset or well-ordered.
\<close>

definition trace_ok :: "('ts::linorder) proc_trace \<Rightarrow> bool" where
  "trace_ok proc =
     ((\<forall>sc \<in> set (syscall proc). 0 \<le> returnvalue sc)
      \<and> (case (ts_start proc, ts_end proc) of
            (None, None) \<Rightarrow> True
          | (Some s, Some e) \<Rightarrow> s \<le> e
          | _ \<Rightarrow> False))"

text \<open>
  A sample: four lines of a trace, and what the line expression yields on them (the
  timestamps in whole seconds); the third call failed, the second line came late.
\<close>

definition sample_lines :: "string list" where
  "sample_lines =
     [''5.0 openat(AT_FDCWD, a.c, O_RDONLY) = 3'',
      ''3.0 vfork() = 77'',
      ''strace: Process 77 attached'',
      ''4.0 open(b.h, O_RDONLY) = -1 ENOENT (No such file or directory)'',
      ''6.0 +++ exited with 0 +++'']"

definition no_groups :: "int \<Rightarrow> int line_groups" where
  "no_groups t =
     \<lparr>g_timestamp = t, g_killedby = None, g_exitcode = None, g_syscall = None, g_args = None,
      g_returnvalue = None, g_returnfile = None, g_errno = None, g_errstr = None\<rparr>"

definition sample_regex_line :: "string \<Rightarrow> int line_groups option" where
  "sample_regex_line line =
     (if line = sample_lines ! 0
      then Some ((no_groups 5)\<lparr>g_syscall := Some ''openat'',
                  g_args := Some ''AT_FDCWD, a.c, O_RDONLY'', g_returnvalue := Some 3\<rparr>)
      else if line = sample_lines ! 1
      then Some ((no_groups 3)\<lparr>g_syscall := Some ''vfork'', g_args := Some [],
                  g_returnvalue := Some 77\<rparr>)
      else if line = sample_lines ! 3
      then Some ((no_groups 4)\<lparr>g_syscall := Some ''open'',
                  g_args := Some ''b.h, O_RDONLY'', g_returnvalue := Some (- 1),
                  g_errno := Some ''ENOENT'', g_errstr := Some ''No such file or directory''\<rparr>)
      else if line = sample_lines ! 4
      then Some ((no_groups 6)\<lparr>g_exitcode := Some 0\<rparr>)
      else None)"

definition sample_decode_args :: "string \<Rightarrow> string \<Rightarrow> py_error + py_arg list" where
  "sample_decode_args call raw = Inr [Str raw]"

section \<open>Trace store\<close>







text \<open>Comparisons of two keys, both of which must be set.\<close>

definition opt_less :: "('k::linorder) option \<Rightarrow> 'k option \<Rightarrow> bool" where
  "opt_less a b = (case (a, b) of (Some x, Some y) \<Rightarrow> x < y | _ \<Rightarrow> False)"

definition opt_le :: "('k::linorder) option \<Rightarrow> 'k option \<Rightarrow> bool" where
  "opt_le a b = (case (a, b) of (Some x, Some y) \<Rightarrow> x \<le> y | _ \<Rightarrow> False)"



section \<open>Process walker\<close>








section \<open>Verified properties\<close>

subsection \<open>Version comparison\<close>

lemma tuple_lt_lexordp: "tuple_lt xs ys = ord_class.lexordp xs ys"
  by (induction xs ys rule: tuple_lt.induct) auto

lemma version_compare_spec:
  "versiontuple a = Inr at \<Longrightarrow> versiontuple b = Inr bt \<Longrightarrow>
   version_compare a b = Inr (spec_version_compare at bt)"
  by (simp add: version_compare_def spec_version_compare_def three_way_def zero_pad_def
      tuple_lt_lexordp Let_def)

lemma lexordp_same_suffix:
  "length xs = length ys \<Longrightarrow>
   ord_class.lexordp (xs @ zs) (ys @ zs) = ord_class.lexordp xs (ys :: int list)"
  by (induction xs ys rule: list_induct2) (auto simp: lexordp_irreflexive')

lemma three_way_same_suffix:
  "length xs = length ys \<Longrightarrow> three_way (xs @ zs) (ys @ zs) = three_way xs ys"
  by (simp add: three_way_def lexordp_same_suffix)

lemma zero_pad_split:
  "m \<le> n \<Longrightarrow> length xs \<le> m \<Longrightarrow> zero_pad n xs = zero_pad m xs @ replicate (n - m) 0"
  by (simp add: zero_pad_def replicate_add [symmetric])

lemma length_zero_pad: "length xs \<le> n \<Longrightarrow> length (zero_pad n xs) = n"
  by (simp add: zero_pad_def)

lemma three_way_common_pad:
  assumes "length at \<le> n" "length bt \<le> n"
  shows "three_way (zero_pad n at) (zero_pad n bt) = spec_version_compare at bt"
proof -
  let ?m = "max (length at) (length bt)"
  have m: "?m \<le> n" using assms by simp
  have "zero_pad n at = zero_pad ?m at @ replicate (n - ?m) 0"
    by (rule zero_pad_split [OF m]) simp
  moreover have "zero_pad n bt = zero_pad ?m bt @ replicate (n - ?m) 0"
    by (rule zero_pad_split [OF m]) simp
  moreover have "length (zero_pad ?m at) = length (zero_pad ?m bt)"
    by (simp add: length_zero_pad)
  ultimately show ?thesis
    by (simp add: three_way_same_suffix spec_version_compare_def)
qed

lemma three_way_values: "three_way p q \<in> {0, - 1, 1}"
  by (simp add: three_way_def)

lemma three_way_flip: "three_way q p = - three_way p q"
  using lexordp_antisym [of p q] lexordp_linear [of p q]
  by (auto simp: three_way_def)

lemma three_way_trans:
  assumes "three_way p q \<le> 0" "three_way q r \<le> 0"
  shows "three_way p r \<le> 0 \<and> (three_way p q < 0 \<or> three_way q r < 0 \<longrightarrow> three_way p r < 0)"
proof -
  have pq: "p = q \<or> ord_class.lexordp p q"
    using assms(1) by (auto simp: three_way_def split: if_splits)
  have qr: "q = r \<or> ord_class.lexordp q r"
    using assms(2) by (auto simp: three_way_def split: if_splits)
  from pq qr show ?thesis
    using lexordp_trans [of p q r] lexordp_irreflexive' [of p]
    by (auto simp: three_way_def)
qed

lemma spec_version_compare_values: "spec_version_compare at bt \<in> {0, - 1, 1}"
  unfolding spec_version_compare_def by (rule three_way_values)

lemma spec_version_compare_flip: "spec_version_compare bt at = - spec_version_compare at bt"
  unfolding spec_version_compare_def by (simp add: three_way_flip [of "zero_pad _ bt"] max.commute)

lemma spec_version_compare_trans:
  assumes "spec_version_compare at bt \<le> 0" "spec_version_compare bt ct \<le> 0"
  shows "spec_version_compare at ct \<le> 0 \<and>
         (spec_version_compare at bt < 0 \<or> spec_version_compare bt ct < 0
            \<longrightarrow> spec_version_compare at ct < 0)"
proof -
  define n where "n = max (length at) (max (length bt) (length ct))"
  have a: "length at \<le> n" and b: "length bt \<le> n" and c: "length ct \<le> n"
    by (simp_all add: n_def)
  note ab = three_way_common_pad [OF a b]
  note bc = three_way_common_pad [OF b c]
  note ac = three_way_common_pad [OF a c]
  show ?thesis
    using three_way_trans [of "zero_pad n at" "zero_pad n bt" "zero_pad n ct"] assms
    unfolding ab bc ac by simp
qed

lemma py_split_not_Nil: "py_split sep s \<noteq> []"
  by (induction s) (auto split: list.splits)

lemma py_split_append_sep:
  "py_split sep (s @ sep # t) = py_split sep s @ py_split sep t"
  by (induction s) (auto split: list.splits simp: py_split_not_Nil)

lemma map_int_append:
  "map_int ws = Inr ns \<Longrightarrow> map_int vs = Inr ms \<Longrightarrow> map_int (ws @ vs) = Inr (ns @ ms)"
  by (induction ws arbitrary: ns) (auto split: option.splits sum.splits)

lemma versiontuple_append_zero:
  assumes "versiontuple a = Inr at"
  shows "versiontuple (a @ ''.0'') = Inr (at @ [0])"
proof -
  have "map_int (py_split (CHR ''.'') ''0'') = Inr [0]"
    by (simp add: py_int_def py_strip_def is_py_space_def digit_val_def)
  with assms show ?thesis
    unfolding versiontuple_def by (simp add: py_split_append_sep map_int_append)
qed

lemma zero_pad_snoc_zero: "length xs < n \<Longrightarrow> zero_pad n (xs @ [0]) = zero_pad n xs"
proof -
  assume "length xs < n"
  then have "n - length xs = Suc (n - Suc (length xs))" by simp
  then have "replicate (n - length xs) (0::int) = 0 # replicate (n - Suc (length xs)) 0"
    by simp
  then show ?thesis by (simp add: zero_pad_def)
qed

lemma spec_version_compare_snoc_left:
  "spec_version_compare (at @ [0]) bt = spec_version_compare at bt"
proof -
  define n where "n = max (Suc (length at)) (length bt)"
  have "three_way (zero_pad n (at @ [0])) (zero_pad n bt) = spec_version_compare (at @ [0]) bt"
    by (rule three_way_common_pad) (simp_all add: n_def)
  moreover have "three_way (zero_pad n at) (zero_pad n bt) = spec_version_compare at bt"
    by (rule three_way_common_pad) (simp_all add: n_def)
  moreover have "zero_pad n (at @ [0]) = zero_pad n at"
    by (rule zero_pad_snoc_zero) (simp add: n_def)
  ultimately show ?thesis by simp
qed

lemma spec_version_compare_snoc_right:
  "spec_version_compare at (bt @ [0]) = spec_version_compare at bt"
  using spec_version_compare_snoc_left [of bt at]
  by (simp add: spec_version_compare_flip [of _ at])

text \<open>
  Claim C6. For version strings \<open>a\<close>, \<open>b\<close>, \<open>c\<close> made of dotted integers (those
  that \<open>versiontuple\<close> parses), \<open>version_compare a b\<close> returns the lexicographic
  comparison of the two integer tuples padded with zeros to the longer length, the result
  is 0, -1 or 1, swapping the operands negates it, the induced order is transitive, and
  appending a \<open>.0\<close> component to either operand changes no result.
\<close>

theorem version_compare_total_order:
  assumes "versiontuple a = Inr at" "versiontuple b = Inr bt" "versiontuple c = Inr ct"
  shows "version_compare a b = Inr (spec_version_compare at bt)
       \<and> spec_version_compare at bt \<in> {0, - 1, 1}
       \<and> version_compare b a = Inr (- spec_version_compare at bt)
       \<and> (\<forall>x y. version_compare a b = Inr x \<and> version_compare b c = Inr y \<and> x \<le> 0 \<and> y \<le> 0
            \<longrightarrow> (\<exists>z. version_compare a c = Inr z \<and> z \<le> 0 \<and> (x < 0 \<or> y < 0 \<longrightarrow> z < 0)))
       \<and> version_compare (a @ ''.0'') b = version_compare a b
       \<and> version_compare a (b @ ''.0'') = version_compare a b"
proof -
  note ab = version_compare_spec [OF assms(1) assms(2)]
  note ba = version_compare_spec [OF assms(2) assms(1)]
  note bc = version_compare_spec [OF assms(2) assms(3)]
  note ac = version_compare_spec [OF assms(1) assms(3)]
  have flip: "version_compare b a = Inr (- spec_version_compare at bt)"
    unfolding ba by (simp add: spec_version_compare_flip [of bt at])
  have trans: "\<forall>x y. version_compare a b = Inr x \<and> version_compare b c = Inr y \<and> x \<le> 0 \<and> y \<le> 0
            \<longrightarrow> (\<exists>z. version_compare a c = Inr z \<and> z \<le> 0 \<and> (x < 0 \<or> y < 0 \<longrightarrow> z < 0))"
    unfolding ab bc ac using spec_version_compare_trans [of at bt ct] by auto
  have left: "version_compare (a @ ''.0'') b = version_compare a b"
    unfolding ab version_compare_spec [OF versiontuple_append_zero [OF assms(1)] assms(2)]
    by (simp add: spec_version_compare_snoc_left)
  have right: "version_compare a (b @ ''.0'') = version_compare a b"
    unfolding ab version_compare_spec [OF assms(1) versiontuple_append_zero [OF assms(2)]]
    by (simp add: spec_version_compare_snoc_right)
  from ab spec_version_compare_values flip trans left right show ?thesis by blast
qed

theorem version_compare_total_order_witness:
  "versiontuple ''1.10'' = Inr [1, 10] \<and> versiontuple ''1.9.5'' = Inr [1, 9, 5]
   \<and> versiontuple ''1.2'' = Inr [1, 2]
   \<and> version_compare ''1.10'' ''1.9.5'' = Inr 1
   \<and> version_compare ''1.9.5'' ''1.10'' = Inr (- 1)
   \<and> version_compare ''1.10.0'' ''1.9.5'' = Inr 1"
proof -
  have a: "versiontuple ''1.10'' = Inr [1, 10]" by code_simp
  have b: "versiontuple ''1.9.5'' = Inr [1, 9, 5]" by code_simp
  have c: "versiontuple ''1.2'' = Inr [1, 2]" by code_simp
  have v: "spec_version_compare [1, 10] [1, 9, 5] = 1" by code_simp
  show ?thesis
    using version_compare_total_order [OF a b c] a b c v by simp
qed

subsection \<open>Default standards\<close>

lemma std_default_wf: "map_of std_default n = Some data \<Longrightarrow> wf_table data"
  by (auto simp: std_default_def wf_table_def truthy_def row_version_def versiontuple_def
      py_int_def py_strip_def is_py_space_def digit_val_def spec_version_compare_def
      three_way_def zero_pad_def split: if_splits)

lemma wf_table_nth:
  assumes "wf_table data" "0 < k" "k < length data"
  shows "truthy (fst (data ! k))" "\<exists>mt. row_version (data ! k) = Some mt"
proof -
  from assms obtain r0 rs where d: "data = r0 # rs" by (cases data) auto
  with assms have "data ! k \<in> set rs" by (cases k) auto
  with assms(1) d show "truthy (fst (data ! k))" "\<exists>mt. row_version (data ! k) = Some mt"
    by (auto simp: wf_table_def list_all_iff)
qed

lemma wf_table_first: "wf_table data \<Longrightarrow> data \<noteq> [] \<and> \<not> truthy (fst (data ! 0)) \<and> row_version (data ! 0) = None"
  by (cases data) (auto simp: wf_table_def truthy_def row_version_def)

lemma version_compare_row:
  assumes "row_version r = Some mt" "versiontuple ver = Inr vt"
  shows "version_compare (the (fst r)) ver = Inr (spec_version_compare mt vt)"
  using assms by (auto simp: row_version_def version_compare_spec split: option.splits sum.splits)

lemma default_std_loop_scan:
  assumes wf: "wf_table data" and ver: "versiontuple ver = Inr vt"
  shows "k < length data \<Longrightarrow>
         default_std_loop data ver l (int k) = row_std (data ! scan_stop data vt k) l"
proof (induction k)
  case 0
  with wf_table_first [OF wf] show ?case
    by (subst default_std_loop.simps) (auto split: list.splits)
next
  case (Suc k)
  from wf_table_nth [OF wf _ Suc.prems] obtain mt
    where t: "truthy (fst (data ! Suc k))" and mt: "row_version (data ! Suc k) = Some mt"
    by auto
  have idx: "nat (int (Suc k)) = Suc k" by simp
  have prev: "int (Suc k) - 1 = int k" by simp
  from Suc have IH: "default_std_loop data ver l (int k) = row_std (data ! scan_stop data vt k) l"
    by simp
  show ?case
    apply (subst default_std_loop.simps)
    using Suc.prems t mt IH
    by (simp add: version_compare_row [OF mt ver] row_applies_def Let_def prev del: of_nat_Suc)
qed

lemma scan_stop_le: "scan_stop data vt k \<le> k"
  by (induction k) auto

lemma scan_stop_applies: "scan_stop data vt k = 0 \<or> row_applies (data ! scan_stop data vt k) vt"
  by (induction k) auto

lemma scan_stop_above: "scan_stop data vt k < i \<Longrightarrow> i \<le> k \<Longrightarrow> \<not> row_applies (data ! i) vt"
  by (induction k) (auto split: if_splits simp: le_Suc_eq)

lemma wf_table_sorted:
  assumes wf: "wf_table data" and "0 < i" "i \<le> j" "j < length data"
    and "row_version (data ! i) = Some mi" "row_version (data ! j) = Some mj"
  shows "spec_version_compare mi mj \<le> 0"
proof (cases "i = j")
  case True
  with assms show ?thesis by (simp add: spec_version_compare_def three_way_def)
next
  case False
  from wf obtain r0 rs where d: "data = r0 # rs" by (cases data) (auto simp: wf_table_def)
  from assms False obtain i' j' where ij: "i = Suc i'" "j = Suc j'" "i' < j'" "j' < length rs"
    using d by (cases i; cases j) auto
  from wf d have "sorted_wrt (\<lambda>a b. spec_version_compare (the (row_version a)) (the (row_version b)) \<le> 0) rs"
    by (simp add: wf_table_def)
  from sorted_wrt_nth_less [OF this ij(3) ij(4)] assms d ij show ?thesis by simp
qed

lemma scan_stop_selected:
  assumes wf: "wf_table data"
  shows "is_selected_row data vt (data ! scan_stop data vt (length data - 1))"
proof -
  let ?n = "length data - 1"
  let ?j = "scan_stop data vt ?n"
  from wf_table_first [OF wf] have ne: "data \<noteq> []" and v0: "row_version (data ! 0) = None"
    by auto
  have jn: "?j < length data" using scan_stop_le [of data vt ?n] ne
    by (cases data) auto
  then have mem: "data ! ?j \<in> set data" by simp
  show ?thesis
  proof (cases "?j = 0")
    case True
    have "0 < spec_version_compare mt' vt" if "r \<in> set data" "row_version r = Some mt'" for r mt'
    proof -
      from that(1) obtain i where i: "i < length data" "data ! i = r"
        by (auto simp: in_set_conv_nth)
      with that(2) v0 have "0 < i" by (cases i) auto
      with i True have "\<not> row_applies (data ! i) vt"
        by (intro scan_stop_above [of data vt ?n]) auto
      with i that(2) show ?thesis by (simp add: row_applies_def)
    qed
    with True mem v0 ne show ?thesis
      by (auto simp: is_selected_row_def hd_conv_nth)
  next
    case False
    with scan_stop_applies [of data vt ?n] have ap: "row_applies (data ! ?j) vt" by simp
    then obtain mt where mt: "row_version (data ! ?j) = Some mt" "spec_version_compare mt vt \<le> 0"
      by (auto simp: row_applies_def split: option.splits)
    have "spec_version_compare mt' mt \<le> 0"
      if "r \<in> set data" "row_version r = Some mt'" "spec_version_compare mt' vt \<le> 0" for r mt'
    proof -
      from that(1) obtain i where i: "i < length data" "data ! i = r"
        by (auto simp: in_set_conv_nth)
      with that(2) v0 have pos: "0 < i" by (cases i) auto
      from i that have "row_applies (data ! i) vt" by (simp add: row_applies_def)
      moreover from i have "i \<le> ?n" by simp
      ultimately have "i \<le> ?j"
        using scan_stop_above [of data vt ?n i] by (cases "?j < i") auto
      from wf_table_sorted [OF wf pos this jn] i that(2) mt(1) show ?thesis by simp
    qed
    with mem mt show ?thesis by (auto simp: is_selected_row_def)
  qed
qed

lemma wf_table_row_std:
  assumes "wf_table data" "row \<in> set data"
  shows "\<exists>s. row_std row l = Inr s \<and> map_of (snd row) l = Some s"
proof -
  from assms have "map_of (snd row) C \<noteq> None \<and> map_of (snd row) CXX \<noteq> None"
    by (cases data) (auto simp: wf_table_def list_all_iff)
  then show ?thesis by (cases l) (auto simp: row_std_def)
qed

lemma get_default_std_selected:
  assumes tab: "map_of std_default (cid c) = Some data" and ver: "versiontuple (version c) = Inr vt"
  shows "\<exists>row s. is_selected_row data vt row \<and> map_of (snd row) l = Some s
                \<and> get_default_std c l = Inr s"
proof -
  note wf = std_default_wf [OF tab]
  from wf_table_first [OF wf] have ne: "data \<noteq> []" by simp
  then have len: "int (length data) - 1 = int (length data - 1)" "length data - 1 < length data"
    by (cases data; simp)+
  let ?row = "data ! scan_stop data vt (length data - 1)"
  have sel: "is_selected_row data vt ?row" by (rule scan_stop_selected [OF wf])
  then have "?row \<in> set data" by (simp add: is_selected_row_def)
  from wf_table_row_std [OF wf this] obtain s
    where s: "row_std ?row l = Inr s" "map_of (snd ?row) l = Some s" by blast
  have "default_std_loop data (version c) l (int (length data) - 1) = row_std ?row l"
    unfolding len(1) by (rule default_std_loop_scan [OF wf ver len(2)])
  with tab s have "get_default_std c l = Inr s"
    by (simp add: get_default_std_def)
  with sel s show ?thesis by blast
qed


lemma gcc_table:
  "map_of std_default ''gcc'' =
     Some [(None, [(C, ''gnu90''), (CXX, ''gnu++98'')]),
           (Some ''5.0.0'', [(C, ''gnu11''), (CXX, ''gnu++98'')]),
           (Some ''6.0.0'', [(C, ''gnu11''), (CXX, ''gnu++14'')]),
           (Some ''11.0.0'', [(C, ''gnu17''), (CXX, ''gnu++17'')]),
           (Some ''15.0.0'', [(C, ''gnu23''), (CXX, ''gnu++17'')])]"
  by (simp add: std_default_def)

lemma gcc_versions:
  "versiontuple ''5.0.0'' = Inr [5, 0, 0]" "versiontuple ''6.0.0'' = Inr [6, 0, 0]"
  "versiontuple ''11.0.0'' = Inr [11, 0, 0]" "versiontuple ''15.0.0'' = Inr [15, 0, 0]"
  by code_simp+

lemma spec_version_compare_less_flip:
  "spec_version_compare vt mt < 0 \<longleftrightarrow> \<not> spec_version_compare mt vt \<le> 0"
  using spec_version_compare_flip [of vt mt] by auto

lemma gcc_chain:
  "spec_version_compare [15, 0, 0] vt \<le> 0 \<Longrightarrow> spec_version_compare [11, 0, 0] vt \<le> 0"
  "spec_version_compare [11, 0, 0] vt \<le> 0 \<Longrightarrow> spec_version_compare [6, 0, 0] vt \<le> 0"
  "spec_version_compare [6, 0, 0] vt \<le> 0 \<Longrightarrow> spec_version_compare [5, 0, 0] vt \<le> 0"
proof -
  have a: "spec_version_compare [11, 0, 0] [15, 0, 0] \<le> 0" by code_simp
  have b: "spec_version_compare [6, 0, 0] [11, 0, 0] \<le> 0" by code_simp
  have c: "spec_version_compare [5, 0, 0] [6, 0, 0] \<le> 0" by code_simp
  show "spec_version_compare [15, 0, 0] vt \<le> 0 \<Longrightarrow> spec_version_compare [11, 0, 0] vt \<le> 0"
    using spec_version_compare_trans [OF a] by blast
  show "spec_version_compare [11, 0, 0] vt \<le> 0 \<Longrightarrow> spec_version_compare [6, 0, 0] vt \<le> 0"
    using spec_version_compare_trans [OF b] by blast
  show "spec_version_compare [6, 0, 0] vt \<le> 0 \<Longrightarrow> spec_version_compare [5, 0, 0] vt \<le> 0"
    using spec_version_compare_trans [OF c] by blast
qed

lemma get_default_std_gcc:
  assumes gcc: "cid c = ''gcc''" and ver: "versiontuple (version c) = Inr vt"
  shows "get_default_std c l = Inr (gcc_rows vt l)"
proof -
  let ?data = "[(None, [(C, ''gnu90''), (CXX, ''gnu++98'')]),
           (Some ''5.0.0'', [(C, ''gnu11''), (CXX, ''gnu++98'')]),
           (Some ''6.0.0'', [(C, ''gnu11''), (CXX, ''gnu++14'')]),
           (Some ''11.0.0'', [(C, ''gnu17''), (CXX, ''gnu++17'')]),
           (Some ''15.0.0'', [(C, ''gnu23''), (CXX, ''gnu++17'')])] :: std_row list"
  have wf: "wf_table ?data" by (rule std_default_wf [OF gcc_table])
  have "default_std_loop ?data (version c) l (int 4) = row_std (?data ! scan_stop ?data vt 4) l"
    by (rule default_std_loop_scan [OF wf ver]) simp
  then have loop: "get_default_std c l = row_std (?data ! scan_stop ?data vt 4) l"
    by (simp add: get_default_std_def gcc gcc_table)
  have stop: "scan_stop ?data vt 4 =
      (if spec_version_compare [15, 0, 0] vt \<le> 0 then 4
       else if spec_version_compare [11, 0, 0] vt \<le> 0 then 3
       else if spec_version_compare [6, 0, 0] vt \<le> 0 then 2
       else if spec_version_compare [5, 0, 0] vt \<le> 0 then 1 else 0)"
    by (simp add: eval_nat_numeral row_applies_def row_version_def gcc_versions)
  show ?thesis
    unfolding loop stop gcc_rows_def spec_version_compare_less_flip
    using gcc_chain [of vt]
    by (cases l) (auto simp: row_std_def)
qed

text \<open>
  Claim C4. For a compiler id present in the default-standard table, either language and a
  dotted-integer version, \<open>get_default_std\<close> returns the standard of the table row with
  the greatest least-version that is at most the given version, and of the first,
  unversioned row when no versioned row qualifies. For gcc this gives gnu90/gnu++98 below
  5.0.0, gnu11/gnu++98 from 5.0.0, gnu11/gnu++14 from 6.0.0, gnu17/gnu++17 from 11.0.0 and
  gnu23/gnu++17 from 15.0.0.
\<close>

theorem get_default_std_greatest_row:
  assumes "map_of std_default (cid c) = Some data" and "versiontuple (version c) = Inr vt"
  shows "(\<exists>row s. is_selected_row data vt row \<and> map_of (snd row) l = Some s
                 \<and> get_default_std c l = Inr s)
       \<and> (cid c = ''gcc'' \<longrightarrow> get_default_std c l = Inr (gcc_rows vt l))"
  using get_default_std_selected [OF assms] get_default_std_gcc [OF _ assms(2)]
  by blast

theorem get_default_std_greatest_row_witness:
  "get_default_std \<lparr>cid = ''gcc'', like = None, version = ''11.5.0''\<rparr> C = Inr ''gnu17''
   \<and> get_default_std \<lparr>cid = ''gcc'', like = None, version = ''11.5.0''\<rparr> CXX = Inr ''gnu++17''
   \<and> (\<exists>row. is_selected_row (the (map_of std_default ''gcc'')) [11, 5, 0] row
            \<and> map_of (snd row) C = Some ''gnu17'')"
proof -
  let ?c = "\<lparr>cid = ''gcc'', like = None, version = ''11.5.0''\<rparr>"
  have v: "versiontuple (version ?c) = Inr [11, 5, 0]" by code_simp
  have t: "map_of std_default (cid ?c) = Some (the (map_of std_default ''gcc''))"
    by (simp add: gcc_table)
  have g: "gcc_rows [11, 5, 0] C = ''gnu17''" "gcc_rows [11, 5, 0] CXX = ''gnu++17''"
    by code_simp+
  from get_default_std_greatest_row [OF t v, of C] g
  obtain row s where r: "is_selected_row (the (map_of std_default ''gcc'')) [11, 5, 0] row"
      "map_of (snd row) C = Some s" "get_default_std ?c C = Inr s"
      "get_default_std ?c C = Inr ''gnu17''"
    by auto
  then have "s = ''gnu17''" by simp
  with r have ex: "\<exists>row. is_selected_row (the (map_of std_default ''gcc'')) [11, 5, 0] row
            \<and> map_of (snd row) C = Some ''gnu17''" by blast
  from get_default_std_greatest_row [OF t v, of CXX] g
  have "get_default_std ?c CXX = Inr ''gnu++17''" by simp
  with r(4) ex show ?thesis by blast
qed

subsection \<open>Metadata of a source file\<close>

lemma source_exts_langs: "map_of source_exts e = Some (t, langs) \<Longrightarrow> langs \<noteq> []"
  by (auto simp: source_exts_def split: if_splits)

lemma std_ansi_keys: "map_of std_default n = Some data \<Longrightarrow> \<exists>table. map_of std_ansi n = Some table"
  by (auto simp: std_default_def std_ansi_def split: if_splits)

lemma get_default_std_total:
  assumes "map_of std_default (cid c) = Some data" "versiontuple (version c) = Inr vt"
  shows "\<exists>s. get_default_std c l = Inr s"
  using get_default_std_selected [OF assms] by blast

lemma get_ansi_std_total:
  assumes "map_of std_default (cid c) = Some data"
  shows "\<exists>r. get_ansi_std c l = Inr r"
  using std_ansi_keys [OF assms] by (auto simp: get_ansi_std_def)

text \<open>The function after its lookups have succeeded.\<close>

lemma get_source_metadata_unfold:
  assumes argv: "args cc = argv0 # rest"
    and ext: "map_of source_exts (splitext_ext source) = Some (SOURCE, langs)"
    and scan: "scan_std (args cc) = Inr std"
  shows "get_source_metadata cc source =
     (let l = effective_language argv0 (hd langs)
      in case (case std of
                 None \<Rightarrow> (if ''-ansi'' \<in> set (args cc) then get_ansi_std (compiler cc) l
                           else Inr None)
               | Some v \<Rightarrow> Inr (if std_language v = l then Some v else None)) of
           Inl e \<Rightarrow> Inl e
         | Inr (Some s) \<Rightarrow> Inr \<lparr>lang = l, standard = s\<rparr>
         | Inr None \<Rightarrow> (case get_default_std (compiler cc) l of
                          Inl e \<Rightarrow> Inl e
                        | Inr s \<Rightarrow> Inr \<lparr>lang = l, standard = s\<rparr>))"
proof -
  from source_exts_langs [OF ext] obtain fl more where langs: "langs = fl # more"
    by (cases langs) auto
  have eff: "(if std_language argv0 = CXX then CXX else fl) = effective_language argv0 fl"
    by (simp add: effective_language_def std_language_def)
  have step: "get_source_metadata cc source =
     (case std of
        None \<Rightarrow>
          (case (if ''-ansi'' \<in> set (args cc)
                 then get_ansi_std (compiler cc) (effective_language argv0 fl)
                 else Inr None) of
             Inl e \<Rightarrow> Inl e
           | Inr (Some s) \<Rightarrow> Inr \<lparr>lang = effective_language argv0 fl, standard = s\<rparr>
           | Inr None \<Rightarrow>
               (case get_default_std (compiler cc) (effective_language argv0 fl) of
                  Inl e \<Rightarrow> Inl e
                | Inr s \<Rightarrow> Inr \<lparr>lang = effective_language argv0 fl, standard = s\<rparr>))
      | Some v \<Rightarrow>
          (if std_language v = effective_language argv0 fl
           then Inr \<lparr>lang = effective_language argv0 fl, standard = v\<rparr>
           else (case get_default_std (compiler cc) (effective_language argv0 fl) of
                   Inl e \<Rightarrow> Inl e
                 | Inr s \<Rightarrow> Inr \<lparr>lang = effective_language argv0 fl, standard = s\<rparr>)))"
    apply (simp only: get_source_metadata_def scan sum.case)
    apply (simp only: argv list.case ext option.case snd_conv fst_conv langs Let_def eff)
    apply (cases std)
     apply (simp_all add: argv)
    done
  show ?thesis
    unfolding step by (cases std) (simp_all add: langs Let_def)
qed


lemma match_std_arg_bare: "match_std_arg ''--std'' = None"
  by (simp add: match_std_arg_def)

lemma scan_std_error: "scan_std argv = Inl e \<longleftrightarrow> e = IndexError \<and> std_scan_overruns argv"
proof (induction argv)
  case Nil
  show ?case by (simp add: std_scan_overruns_def)
next
  case (Cons a rest)
  show ?case
  proof (cases rest)
    case Nil
    then show ?thesis
      by (auto simp: std_scan_overruns_def match_std_arg_bare split: option.splits)
  next
    case (Cons b more)
    with Cons.IH show ?thesis
      by (auto simp: std_scan_overruns_def match_std_arg_bare split: option.splits)
  qed
qed

lemma scan_std_cases:
  "(\<exists>std. scan_std argv = Inr std) \<or> (scan_std argv = Inl IndexError \<and> std_scan_overruns argv)"
  using scan_std_error [of argv] by (cases "scan_std argv") auto

lemma every_std_followed_no_overrun:
  assumes "every_std_followed argv"
  shows "\<not> std_scan_overruns argv"
proof
  assume "std_scan_overruns argv"
  then have ne: "argv \<noteq> []" and l: "last argv = ''--std''"
    by (simp_all add: std_scan_overruns_def)
  from ne l have "argv ! (length argv - 1) = ''--std''" by (simp add: last_conv_nth)
  moreover from ne have "length argv - 1 < length argv" by simp
  ultimately have "Suc (length argv - 1) < length argv"
    using assms unfolding every_std_followed_def by blast
  then show False by simp
qed

lemma get_source_metadata_total:
  assumes argv: "args cc = argv0 # rest"
    and ext: "map_of source_exts (splitext_ext source) = Some (SOURCE, langs)"
    and scan: "scan_std (args cc) = Inr std"
    and tab: "map_of std_default (cid (compiler cc)) = Some data"
    and ver: "versiontuple (version (compiler cc)) = Inr vt"
  shows "\<exists>m. get_source_metadata cc source = Inr m"
proof -
  let ?l = "effective_language argv0 (hd langs)"
  from get_default_std_total [OF tab ver] obtain d where d: "get_default_std (compiler cc) ?l = Inr d"
    by blast
  from get_ansi_std_total [OF tab] obtain a where a: "get_ansi_std (compiler cc) ?l = Inr a"
    by blast
  show ?thesis
    unfolding get_source_metadata_unfold [OF argv ext scan] Let_def
    by (cases std; cases a) (simp_all add: d a)
qed

text \<open>
  Claim C1, as the code has it. For a command with a non-empty argument vector whose scan
  for the standard stays in bounds, and a source whose extension is a SOURCE extension, the
  returned language is C++ when \<open>argv[0]\<close> contains \<open>++\<close> and the language of the
  extension otherwise. A standard whose language differs from it is ignored and the
  standard of the default table is returned; the ansi table is not consulted then. A
  standard of the same language is returned as it is. With the compiler in the tables and
  a dotted-integer version the function returns.
\<close>

theorem get_source_metadata_language:
  assumes "args cc = argv0 # rest"
    and "map_of source_exts (splitext_ext source) = Some (SOURCE, langs)"
    and "scan_std (args cc) = Inr std"
  shows "(\<forall>m. get_source_metadata cc source = Inr m
            \<longrightarrow> lang m = effective_language argv0 (hd langs))
       \<and> (\<forall>v. std = Some v \<and> std_language v \<noteq> effective_language argv0 (hd langs)
            \<longrightarrow> get_source_metadata cc source =
                 (case get_default_std (compiler cc) (effective_language argv0 (hd langs)) of
                    Inl e \<Rightarrow> Inl e
                  | Inr s \<Rightarrow> Inr \<lparr>lang = effective_language argv0 (hd langs), standard = s\<rparr>))
       \<and> (\<forall>v. std = Some v \<and> std_language v = effective_language argv0 (hd langs)
            \<longrightarrow> get_source_metadata cc source =
                 Inr \<lparr>lang = effective_language argv0 (hd langs), standard = v\<rparr>)
       \<and> (\<forall>data vt. map_of std_default (cid (compiler cc)) = Some data
                    \<and> versiontuple (version (compiler cc)) = Inr vt
            \<longrightarrow> (\<exists>m. get_source_metadata cc source = Inr m))"
proof -
  note u = get_source_metadata_unfold [OF assms]
  have 1: "\<forall>m. get_source_metadata cc source = Inr m
            \<longrightarrow> lang m = effective_language argv0 (hd langs)"
    unfolding u Let_def by (auto split: option.splits sum.splits if_splits)
  have 2: "\<forall>v. std = Some v \<and> std_language v \<noteq> effective_language argv0 (hd langs)
            \<longrightarrow> get_source_metadata cc source =
                 (case get_default_std (compiler cc) (effective_language argv0 (hd langs)) of
                    Inl e \<Rightarrow> Inl e
                  | Inr s \<Rightarrow> Inr \<lparr>lang = effective_language argv0 (hd langs), standard = s\<rparr>)"
    unfolding u Let_def by simp
  have 3: "\<forall>v. std = Some v \<and> std_language v = effective_language argv0 (hd langs)
            \<longrightarrow> get_source_metadata cc source =
                 Inr \<lparr>lang = effective_language argv0 (hd langs), standard = v\<rparr>"
    unfolding u Let_def by simp
  have 4: "\<forall>data vt. map_of std_default (cid (compiler cc)) = Some data
                    \<and> versiontuple (version (compiler cc)) = Inr vt
            \<longrightarrow> (\<exists>m. get_source_metadata cc source = Inr m)"
    using get_source_metadata_total [OF assms] by blast
  from 1 2 3 4 show ?thesis by blast
qed


lemma eval_defs:
  "splitext_ext ''x.c'' = ''.c''" "splitext_ext ''x.cpp'' = ''.cpp''" "splitext_ext ''m.c'' = ''.c''"
  by code_simp+

lemma ext_lookups:
  "map_of source_exts ''.c'' = Some (SOURCE, [C])"
  "map_of source_exts ''.cpp'' = Some (SOURCE, [CXX])"
  by (simp_all add: source_exts_def)

theorem get_source_metadata_language_witness:
  "get_source_metadata
     \<lparr>cwd = Path ''/b'', compiler = \<lparr>cid = ''gcc'', like = None, version = ''11.5.0''\<rparr>,
      executable = ''/usr/bin/g++'', args = [''g++'', ''-std=c99'', ''x.cpp'']\<rparr> ''x.cpp''
   = Inr \<lparr>lang = CXX, standard = ''gnu++17''\<rparr>"
proof -
  let ?cc = "\<lparr>cwd = Path ''/b'', compiler = \<lparr>cid = ''gcc'', like = None, version = ''11.5.0''\<rparr>,
      executable = ''/usr/bin/g++'', args = [''g++'', ''-std=c99'', ''x.cpp'']\<rparr>"
  have a: "args ?cc = ''g++'' # [''-std=c99'', ''x.cpp'']" by simp
  have e: "map_of source_exts (splitext_ext ''x.cpp'') = Some (SOURCE, [CXX])"
    by (simp add: eval_defs ext_lookups)
  have s: "scan_std (args ?cc) = Inr (Some ''c99'')" by code_simp
  have l: "effective_language ''g++'' (hd [CXX]) = CXX" "std_language ''c99'' = C" by code_simp+
  have v: "versiontuple (version (compiler ?cc)) = Inr [11, 5, 0]" by code_simp
  have g: "cid (compiler ?cc) = ''gcc''" by simp
  have d: "get_default_std (compiler ?cc) CXX = Inr ''gnu++17''"
    unfolding get_default_std_gcc [OF g v] by code_simp
  from get_source_metadata_language [OF a e s] l d show ?thesis by simp
qed

text \<open>
  Claim C1 as stated fails: with \<open>-ansi\<close> and a dropped \<open>-std=c++11\<close> on a C source,
  gcc 11.5.0 gets the default gnu17, where the ansi rule would give c90.
\<close>

theorem get_source_metadata_ansi_not_after_drop:
  "scan_std [''gcc'', ''-ansi'', ''-std=c++11'', ''x.c''] = Inr (Some ''c++11'')
   \<and> std_language ''c++11'' = CXX
   \<and> get_source_metadata
       \<lparr>cwd = Path ''/b'', compiler = \<lparr>cid = ''gcc'', like = None, version = ''11.5.0''\<rparr>,
        executable = ''/usr/bin/gcc'', args = [''gcc'', ''-ansi'', ''-std=c++11'', ''x.c'']\<rparr> ''x.c''
     = Inr \<lparr>lang = C, standard = ''gnu17''\<rparr>
   \<and> spec_ansi_default_rules
       \<lparr>cwd = Path ''/b'', compiler = \<lparr>cid = ''gcc'', like = None, version = ''11.5.0''\<rparr>,
        executable = ''/usr/bin/gcc'', args = [''gcc'', ''-ansi'', ''-std=c++11'', ''x.c'']\<rparr> C
     = Inr ''c90''"
proof -
  let ?cc = "\<lparr>cwd = Path ''/b'', compiler = \<lparr>cid = ''gcc'', like = None, version = ''11.5.0''\<rparr>,
        executable = ''/usr/bin/gcc'', args = [''gcc'', ''-ansi'', ''-std=c++11'', ''x.c'']\<rparr>"
  have a: "args ?cc = ''gcc'' # [''-ansi'', ''-std=c++11'', ''x.c'']" by simp
  have e: "map_of source_exts (splitext_ext ''x.c'') = Some (SOURCE, [C])"
    by (simp add: eval_defs ext_lookups)
  have s: "scan_std (args ?cc) = Inr (Some ''c++11'')" by code_simp
  have l: "effective_language ''gcc'' C = C" "std_language ''c++11'' = CXX" by code_simp+
  have v: "versiontuple (version (compiler ?cc)) = Inr [11, 5, 0]" by code_simp
  have g: "cid (compiler ?cc) = ''gcc''" by simp
  have d: "get_default_std (compiler ?cc) C = Inr ''gnu17''"
    unfolding get_default_std_gcc [OF g v] by code_simp
  have m: "get_source_metadata ?cc ''x.c'' = Inr \<lparr>lang = C, standard = ''gnu17''\<rparr>"
    unfolding get_source_metadata_unfold [OF a e s] using d by (simp add: l)
  have r: "spec_ansi_default_rules ?cc C = Inr ''c90''"
    by (simp add: spec_ansi_default_rules_def get_ansi_std_def std_ansi_def)
  from s l m r show ?thesis by simp
qed


text \<open>
  Claim C5, as the code has it. Let the argument vector contain \<open>-ansi\<close>. When it holds
  no standard option at all (the scan finds none), the standard is the entry of the ansi
  table for the compiler id and the effective language when there is one, and the default
  standard when there is none. When a standard option was found and dropped because its
  language differs from the effective language, \<open>-ansi\<close> is not applied and the default
  standard is returned.
\<close>

theorem get_source_metadata_ansi:
  assumes "args cc = argv0 # rest"
    and "map_of source_exts (splitext_ext source) = Some (SOURCE, langs)"
    and "scan_std (args cc) = Inr std"
    and "''-ansi'' \<in> set (args cc)"
  shows "(\<forall>s. std = None
              \<and> get_ansi_std (compiler cc) (effective_language argv0 (hd langs)) = Inr (Some s)
            \<longrightarrow> get_source_metadata cc source =
                  Inr \<lparr>lang = effective_language argv0 (hd langs), standard = s\<rparr>)
       \<and> (std = None
              \<and> get_ansi_std (compiler cc) (effective_language argv0 (hd langs)) = Inr None
            \<longrightarrow> get_source_metadata cc source =
                  (case get_default_std (compiler cc) (effective_language argv0 (hd langs)) of
                     Inl e \<Rightarrow> Inl e
                   | Inr s \<Rightarrow> Inr \<lparr>lang = effective_language argv0 (hd langs), standard = s\<rparr>))
       \<and> (\<forall>v. std = Some v \<and> std_language v \<noteq> effective_language argv0 (hd langs)
            \<longrightarrow> get_source_metadata cc source =
                  (case get_default_std (compiler cc) (effective_language argv0 (hd langs)) of
                     Inl e \<Rightarrow> Inl e
                   | Inr s \<Rightarrow> Inr \<lparr>lang = effective_language argv0 (hd langs), standard = s\<rparr>))"
proof -
  note u = get_source_metadata_unfold [OF assms(1,2,3)]
  have 1: "\<forall>s. std = None
              \<and> get_ansi_std (compiler cc) (effective_language argv0 (hd langs)) = Inr (Some s)
            \<longrightarrow> get_source_metadata cc source =
                  Inr \<lparr>lang = effective_language argv0 (hd langs), standard = s\<rparr>"
    unfolding u Let_def using assms(4) by simp
  have 2: "std = None
              \<and> get_ansi_std (compiler cc) (effective_language argv0 (hd langs)) = Inr None
            \<longrightarrow> get_source_metadata cc source =
                  (case get_default_std (compiler cc) (effective_language argv0 (hd langs)) of
                     Inl e \<Rightarrow> Inl e
                   | Inr s \<Rightarrow> Inr \<lparr>lang = effective_language argv0 (hd langs), standard = s\<rparr>)"
    unfolding u Let_def using assms(4) by simp
  have 3: "\<forall>v. std = Some v \<and> std_language v \<noteq> effective_language argv0 (hd langs)
            \<longrightarrow> get_source_metadata cc source =
                  (case get_default_std (compiler cc) (effective_language argv0 (hd langs)) of
                     Inl e \<Rightarrow> Inl e
                   | Inr s \<Rightarrow> Inr \<lparr>lang = effective_language argv0 (hd langs), standard = s\<rparr>)"
    unfolding u Let_def by simp
  from 1 2 3 show ?thesis by blast
qed

theorem get_source_metadata_ansi_witness:
  "get_source_metadata
     \<lparr>cwd = Path ''/b'', compiler = \<lparr>cid = ''gcc'', like = None, version = ''11.5.0''\<rparr>,
      executable = ''/usr/bin/gcc'', args = [''gcc'', ''-ansi'', ''x.c'']\<rparr> ''x.c''
   = Inr \<lparr>lang = C, standard = ''c90''\<rparr>
   \<and> scan_std [''clang'', ''-ansi'', ''--std=c++17'', ''x.c''] = Inr (Some ''c++17'')
   \<and> get_source_metadata
     \<lparr>cwd = Path ''/b'', compiler = \<lparr>cid = ''clang'', like = None, version = ''16.0.0''\<rparr>,
      executable = ''/usr/bin/clang'', args = [''clang'', ''-ansi'', ''--std=c++17'', ''x.c'']\<rparr>
     ''x.c''
   = Inr \<lparr>lang = C, standard = ''gnu17''\<rparr>
   \<and> get_source_metadata
     \<lparr>cwd = Path ''/b'', compiler = \<lparr>cid = ''clang'', like = None, version = ''16.0.0''\<rparr>,
      executable = ''/usr/bin/clang++'', args = [''clang++'', ''-ansi'', ''x.cpp'']\<rparr> ''x.cpp''
   = Inr \<lparr>lang = CXX, standard = ''gnu++17''\<rparr>"
proof -
  let ?g = "\<lparr>cwd = Path ''/b'', compiler = \<lparr>cid = ''gcc'', like = None, version = ''11.5.0''\<rparr>,
      executable = ''/usr/bin/gcc'', args = [''gcc'', ''-ansi'', ''x.c'']\<rparr>"
  let ?k = "\<lparr>cwd = Path ''/b'', compiler = \<lparr>cid = ''clang'', like = None, version = ''16.0.0''\<rparr>,
      executable = ''/usr/bin/clang'', args = [''clang'', ''-ansi'', ''--std=c++17'', ''x.c'']\<rparr>"
  let ?p = "\<lparr>cwd = Path ''/b'', compiler = \<lparr>cid = ''clang'', like = None, version = ''16.0.0''\<rparr>,
      executable = ''/usr/bin/clang++'', args = [''clang++'', ''-ansi'', ''x.cpp'']\<rparr>"
  have ec: "map_of source_exts (splitext_ext ''x.c'') = Some (SOURCE, [C])"
    by (simp add: eval_defs ext_lookups)
  have ep: "map_of source_exts (splitext_ext ''x.cpp'') = Some (SOURCE, [CXX])"
    by (simp add: eval_defs ext_lookups)
  have l: "effective_language ''gcc'' (hd [C]) = C" "effective_language ''clang'' (hd [C]) = C"
    "effective_language ''clang++'' (hd [CXX]) = CXX" "std_language ''c++17'' = CXX"
    by code_simp+
  have ga: "args ?g = ''gcc'' # [''-ansi'', ''x.c'']" by simp
  have gs: "scan_std (args ?g) = Inr None" by code_simp
  have gi: "''-ansi'' \<in> set (args ?g)" by simp
  have gt: "get_ansi_std (compiler ?g) C = Inr (Some ''c90'')"
    by (simp add: get_ansi_std_def std_ansi_def)
  from get_source_metadata_ansi [OF ga ec gs gi] gt
  have 1: "get_source_metadata ?g ''x.c'' = Inr \<lparr>lang = C, standard = ''c90''\<rparr>"
    using l by simp
  have ka: "args ?k = ''clang'' # [''-ansi'', ''--std=c++17'', ''x.c'']" by simp
  have ks: "scan_std (args ?k) = Inr (Some ''c++17'')" by code_simp
  have ki: "''-ansi'' \<in> set (args ?k)" by simp
  have kd: "get_default_std (compiler ?k) C = Inr ''gnu17''" by code_simp
  from get_source_metadata_ansi [OF ka ec ks ki] kd
  have 2: "get_source_metadata ?k ''x.c'' = Inr \<lparr>lang = C, standard = ''gnu17''\<rparr>"
    using l by simp
  have pa: "args ?p = ''clang++'' # [''-ansi'', ''x.cpp'']" by simp
  have ps: "scan_std (args ?p) = Inr None" by code_simp
  have pi: "''-ansi'' \<in> set (args ?p)" by simp
  have pt: "get_ansi_std (compiler ?p) CXX = Inr None"
    by (simp add: get_ansi_std_def std_ansi_def)
  have pd: "get_default_std (compiler ?p) CXX = Inr ''gnu++17''" by code_simp
  from get_source_metadata_ansi [OF pa ep ps pi] pt pd
  have 3: "get_source_metadata ?p ''x.cpp'' = Inr \<lparr>lang = CXX, standard = ''gnu++17''\<rparr>"
    using l by simp
  from ks have ks': "scan_std [''clang'', ''-ansi'', ''--std=c++17'', ''x.c''] = Inr (Some ''c++17'')"
    by simp
  from 1 ks' 2 3 show ?thesis by (intro conjI)
qed

text \<open>
  Claim C5 as stated fails: for lcc with \<open>--std c++14\<close> dropped on a C source and
  \<open>-ansi\<close> present, the ansi table has c89 but the result is the default gnu18.
\<close>

theorem get_source_metadata_ansi_skipped:
  "''-ansi'' \<in> set [''lcc'', ''--std'', ''c++14'', ''-ansi'', ''m.c'']
   \<and> get_ansi_std \<lparr>cid = ''lcc'', like = Some ''gcc'', version = ''1.29.0''\<rparr> C = Inr (Some ''c89'')
   \<and> get_source_metadata
       \<lparr>cwd = Path ''/w'', compiler = \<lparr>cid = ''lcc'', like = Some ''gcc'', version = ''1.29.0''\<rparr>,
        executable = ''/opt/mcst/bin/lcc'',
        args = [''lcc'', ''--std'', ''c++14'', ''-ansi'', ''m.c'']\<rparr> ''m.c''
     = Inr \<lparr>lang = C, standard = ''gnu18''\<rparr>"
proof -
  let ?cc = "\<lparr>cwd = Path ''/w'', compiler = \<lparr>cid = ''lcc'', like = Some ''gcc'', version = ''1.29.0''\<rparr>,
        executable = ''/opt/mcst/bin/lcc'',
        args = [''lcc'', ''--std'', ''c++14'', ''-ansi'', ''m.c'']\<rparr>"
  have a: "args ?cc = ''lcc'' # [''--std'', ''c++14'', ''-ansi'', ''m.c'']" by simp
  have e: "map_of source_exts (splitext_ext ''m.c'') = Some (SOURCE, [C])"
    by (simp add: eval_defs ext_lookups)
  have s: "scan_std (args ?cc) = Inr (Some ''c++14'')" by code_simp
  have l: "effective_language ''lcc'' C = C" "std_language ''c++14'' = CXX" by code_simp+
  have d: "get_default_std (compiler ?cc) C = Inr ''gnu18''" by code_simp
  have m: "get_source_metadata ?cc ''m.c'' = Inr \<lparr>lang = C, standard = ''gnu18''\<rparr>"
    unfolding get_source_metadata_unfold [OF a e s] using d by (simp add: l)
  have t: "get_ansi_std \<lparr>cid = ''lcc'', like = Some ''gcc'', version = ''1.29.0''\<rparr> C = Inr (Some ''c89'')"
    by (simp add: get_ansi_std_def std_ansi_def)
  from m t show ?thesis by simp
qed

text \<open>
  Claim C10, as the code has it. For a non-empty argument vector, a SOURCE extension, a
  compiler of the tables and a dotted-integer version: if every \<open>--std\<close> is followed by
  an argument the function returns; it returns exactly when the scan does not reach a
  \<open>--std\<close> in last position before any other standard option, and raises IndexError
  otherwise.
\<close>

theorem get_source_metadata_index_bounds:
  assumes "args cc = argv0 # rest"
    and "map_of source_exts (splitext_ext source) = Some (SOURCE, langs)"
    and "map_of std_default (cid (compiler cc)) = Some data"
    and "versiontuple (version (compiler cc)) = Inr vt"
  shows "(every_std_followed (args cc) \<longrightarrow> (\<exists>m. get_source_metadata cc source = Inr m))
       \<and> ((\<exists>m. get_source_metadata cc source = Inr m) \<longleftrightarrow> \<not> std_scan_overruns (args cc))
       \<and> (std_scan_overruns (args cc) \<longrightarrow> get_source_metadata cc source = Inl IndexError)"
proof -
  have over: "get_source_metadata cc source = Inl IndexError" if "std_scan_overruns (args cc)"
  proof -
    from that scan_std_error [of "args cc" IndexError]
    have "scan_std (args cc) = Inl IndexError" by simp
    then show ?thesis by (simp add: get_source_metadata_def)
  qed
  have ok: "\<exists>m. get_source_metadata cc source = Inr m" if "\<not> std_scan_overruns (args cc)"
  proof -
    from that scan_std_cases [of "args cc"] obtain std where "scan_std (args cc) = Inr std"
      by blast
    from get_source_metadata_total [OF assms(1,2) this assms(3,4)] show ?thesis .
  qed
  from over ok every_std_followed_no_overrun [of "args cc"] show ?thesis by auto
qed

theorem get_source_metadata_index_bounds_witness:
  "every_std_followed [''gcc'', ''--std'', ''c11'', ''x.c'']
   \<and> (\<exists>m. get_source_metadata
       \<lparr>cwd = Path ''/b'', compiler = \<lparr>cid = ''gcc'', like = None, version = ''11.5.0''\<rparr>,
        executable = ''/usr/bin/gcc'', args = [''gcc'', ''--std'', ''c11'', ''x.c'']\<rparr> ''x.c'' = Inr m)"
proof -
  let ?cc = "\<lparr>cwd = Path ''/b'', compiler = \<lparr>cid = ''gcc'', like = None, version = ''11.5.0''\<rparr>,
        executable = ''/usr/bin/gcc'', args = [''gcc'', ''--std'', ''c11'', ''x.c'']\<rparr>"
  have a: "args ?cc = ''gcc'' # [''--std'', ''c11'', ''x.c'']" by simp
  have e: "map_of source_exts (splitext_ext ''x.c'') = Some (SOURCE, [C])"
    by (simp add: eval_defs ext_lookups)
  have t: "map_of std_default (cid (compiler ?cc)) = Some (the (map_of std_default ''gcc''))"
    by (simp add: gcc_table)
  have v: "versiontuple (version (compiler ?cc)) = Inr [11, 5, 0]" by code_simp
  have f: "every_std_followed [''gcc'', ''--std'', ''c11'', ''x.c'']"
    by (simp add: every_std_followed_def less_Suc_eq nth_Cons')
  from get_source_metadata_index_bounds [OF a e t v] f show ?thesis by simp
qed

text \<open>
  Claim C10 as stated fails twice: an argument vector ending in \<open>--std\<close> is handled
  without error when \<open>-std=c11\<close> comes first, so the precondition is not necessary; and
  the empty argument vector satisfies the precondition while \<open>args[0]\<close> is out of range.
\<close>

theorem get_source_metadata_trailing_std_returns:
  "last [''gcc'', ''-std=c11'', ''--std''] = ''--std''
   \<and> \<not> every_std_followed [''gcc'', ''-std=c11'', ''--std'']
   \<and> get_source_metadata
       \<lparr>cwd = Path ''/b'', compiler = \<lparr>cid = ''gcc'', like = None, version = ''11.5.0''\<rparr>,
        executable = ''/usr/bin/gcc'', args = [''gcc'', ''-std=c11'', ''--std'']\<rparr> ''x.c''
     = Inr \<lparr>lang = C, standard = ''c11''\<rparr>
   \<and> every_std_followed []
   \<and> get_source_metadata
       \<lparr>cwd = Path ''/b'', compiler = \<lparr>cid = ''gcc'', like = None, version = ''11.5.0''\<rparr>,
        executable = ''/usr/bin/gcc'', args = []\<rparr> ''x.c''
     = Inl IndexError"
proof -
  let ?cc = "\<lparr>cwd = Path ''/b'', compiler = \<lparr>cid = ''gcc'', like = None, version = ''11.5.0''\<rparr>,
        executable = ''/usr/bin/gcc'', args = [''gcc'', ''-std=c11'', ''--std'']\<rparr>"
  have a: "args ?cc = ''gcc'' # [''-std=c11'', ''--std'']" by simp
  have e: "map_of source_exts (splitext_ext ''x.c'') = Some (SOURCE, [C])"
    by (simp add: eval_defs ext_lookups)
  have s: "scan_std (args ?cc) = Inr (Some ''c11'')" by code_simp
  have l: "effective_language ''gcc'' C = C" "std_language ''c11'' = C" by code_simp+
  have m: "get_source_metadata ?cc ''x.c'' = Inr \<lparr>lang = C, standard = ''c11''\<rparr>"
    unfolding get_source_metadata_unfold [OF a e s] by (simp add: l)
  have n: "\<not> every_std_followed [''gcc'', ''-std=c11'', ''--std'']"
    unfolding every_std_followed_def by (auto intro!: exI [of _ 2])
  have z: "get_source_metadata
       \<lparr>cwd = Path ''/b'', compiler = \<lparr>cid = ''gcc'', like = None, version = ''11.5.0''\<rparr>,
        executable = ''/usr/bin/gcc'', args = []\<rparr> ''x.c'' = Inl IndexError"
    by (simp add: get_source_metadata_def)
  from m n z show ?thesis by (simp add: every_std_followed_def)
qed

subsection \<open>Prefilter of compiler calls\<close>

lemma counter_get_add:
  "counter_get (counter_add k c) k' = (if k' = k then counter_get c k + 1 else counter_get c k')"
  by (induction c) (auto simp: counter_get_def)

lemma counter_get_fold:
  "counter_get (fold (\<lambda>cc c. counter_add (f cc) c) calls c0) k
     = counter_get c0 k + count_list (map f calls) k"
  by (induction calls arbitrary: c0) (auto simp: counter_get_add)

lemma prefilter_loop_filter:
  "prefilter_loop counters calls =
     filter (\<lambda>cc. call_exitcode cc = Some 0 \<and> open_files cc \<noteq> []
                 \<and> \<not> counter_get counters (as_tuple (command cc)) > 1) calls"
  by (induction calls) auto

text \<open>The tuple of the code is the key of the specification.\<close>

lemma as_tuple_eq: "as_tuple a = as_tuple b \<longleftrightarrow> same_invocation a b"
  by (cases a; cases b; cases "compiler a"; cases "compiler b")
     (auto simp: as_tuple_def same_invocation_def)

lemma count_as_tuple:
  "count_list (map (\<lambda>cc. as_tuple (command cc)) calls) (as_tuple c) = multiplicity calls c"
  by (induction calls) (auto simp: multiplicity_def as_tuple_eq)

lemma multiplicity_card:
  "multiplicity calls c = card {i. i < length calls \<and> same_invocation (command (calls ! i)) c}"
  by (simp add: multiplicity_def length_filter_conv_card)

lemma same_invocation_refl: "same_invocation c c"
  by (simp add: same_invocation_def)

lemma same_invocation_sym: "same_invocation a b \<Longrightarrow> same_invocation b a"
  by (simp add: same_invocation_def)

lemma multiplicity_cong: "same_invocation a b \<Longrightarrow> multiplicity calls a = multiplicity calls b"
  by (simp add: multiplicity_def same_invocation_def)

lemma multiplicity_pos: "cc \<in> set calls \<Longrightarrow> 0 < multiplicity calls (command cc)"
  by (induction calls) (auto simp: multiplicity_def same_invocation_refl)

lemma prefilter_eq:
  "compiler_calls_prefilter calls =
     filter (\<lambda>cc. call_exitcode cc = Some 0 \<and> open_files cc \<noteq> []
                 \<and> multiplicity calls (command cc) = 1) calls"
proof -
  have "counter_get (fold (\<lambda>cc c. counter_add (as_tuple (command cc)) c) calls []) (as_tuple c)
          = multiplicity calls c" for c
    using counter_get_fold [of "\<lambda>cc. as_tuple (command cc)" calls "[]" "as_tuple c"]
    by (simp add: counter_get_def count_as_tuple)
  then have "compiler_calls_prefilter calls =
     filter (\<lambda>cc. call_exitcode cc = Some 0 \<and> open_files cc \<noteq> []
                 \<and> \<not> multiplicity calls (command cc) > 1) calls"
    by (simp add: compiler_calls_prefilter_def prefilter_loop_filter)
  also have "\<dots> = filter (\<lambda>cc. call_exitcode cc = Some 0 \<and> open_files cc \<noteq> []
                 \<and> multiplicity calls (command cc) = 1) calls"
  proof (rule filter_cong [OF refl])
    fix cc assume "cc \<in> set calls"
    from multiplicity_pos [OF this]
    show "(call_exitcode cc = Some 0 \<and> open_files cc \<noteq> []
             \<and> \<not> multiplicity calls (command cc) > 1)
        = (call_exitcode cc = Some 0 \<and> open_files cc \<noteq> []
             \<and> multiplicity calls (command cc) = 1)"
      by auto
  qed
  finally show ?thesis .
qed

lemma multiplicity_two:
  assumes "i < j" "j < length calls"
    and "same_invocation (command (calls ! i)) (command (calls ! j))"
  shows "1 < multiplicity calls (command (calls ! j))"
proof -
  let ?S = "{k. k < length calls \<and> same_invocation (command (calls ! k)) (command (calls ! j))}"
  have fin: "finite ?S" by simp
  have "{i, j} \<subseteq> ?S" using assms by (auto simp: same_invocation_refl)
  from card_mono [OF fin this] assms(1) have "2 \<le> card ?S" by simp
  then show ?thesis by (simp add: multiplicity_card)
qed

lemma multiplicity_one:
  assumes "i < length calls"
    and "\<forall>j < length calls. j \<noteq> i \<longrightarrow> \<not> same_invocation (command (calls ! j)) (command (calls ! i))"
  shows "multiplicity calls (command (calls ! i)) = 1"
proof -
  have "{k. k < length calls \<and> same_invocation (command (calls ! k)) (command (calls ! i))} = {i}"
    using assms by (auto simp: same_invocation_refl)
  then show ?thesis by (simp add: multiplicity_card)
qed

text \<open>
  Claim C3. The output of the prefilter is the input list restricted to the calls with exit
  code 0, a non-empty list of attributed open files and a key (working directory, compiler
  id, executable, argument vector) that no other call of the whole input has. In particular
  two calls with the same key are both removed, and a successful call with open files whose
  key differs from that of every other call is kept.
\<close>

theorem compiler_calls_prefilter_exact:
  "compiler_calls_prefilter calls =
     filter (\<lambda>cc. call_exitcode cc = Some 0 \<and> open_files cc \<noteq> []
                 \<and> multiplicity calls (command cc) = 1) calls
   \<and> (\<forall>i j. i < j \<and> j < length calls
          \<and> same_invocation (command (calls ! i)) (command (calls ! j))
        \<longrightarrow> calls ! i \<notin> set (compiler_calls_prefilter calls)
          \<and> calls ! j \<notin> set (compiler_calls_prefilter calls))
   \<and> (\<forall>i. i < length calls
          \<and> call_exitcode (calls ! i) = Some 0 \<and> open_files (calls ! i) \<noteq> []
          \<and> (\<forall>j < length calls. j \<noteq> i
                \<longrightarrow> \<not> same_invocation (command (calls ! j)) (command (calls ! i)))
        \<longrightarrow> calls ! i \<in> set (compiler_calls_prefilter calls))"
proof -
  have dup: "calls ! i \<notin> set (compiler_calls_prefilter calls)
          \<and> calls ! j \<notin> set (compiler_calls_prefilter calls)"
    if "i < j" "j < length calls"
       "same_invocation (command (calls ! i)) (command (calls ! j))" for i j
  proof -
    from multiplicity_two [OF that] have "1 < multiplicity calls (command (calls ! j))" .
    moreover from multiplicity_cong [OF that(3)]
    have "multiplicity calls (command (calls ! i)) = multiplicity calls (command (calls ! j))" .
    ultimately show ?thesis by (simp add: prefilter_eq)
  qed
  have keep: "calls ! i \<in> set (compiler_calls_prefilter calls)"
    if "i < length calls" "call_exitcode (calls ! i) = Some 0" "open_files (calls ! i) \<noteq> []"
       "\<forall>j < length calls. j \<noteq> i
           \<longrightarrow> \<not> same_invocation (command (calls ! j)) (command (calls ! i))" for i
    using multiplicity_one [OF that(1) that(4)] that(1,2,3) by (simp add: prefilter_eq)
  from prefilter_eq [of calls] dup keep show ?thesis by blast
qed

theorem compiler_calls_prefilter_exact_witness:
  "compiler_calls_prefilter
     [probe_call 100 ''/b'' ''11.5.0'' ''/usr/bin/gcc'' [''gcc'', ''conftest.c''],
      probe_call 101 ''/b'' ''11.5.0'' ''/usr/bin/gcc'' [''gcc'', ''conftest.c''],
      probe_call 102 ''/b'' ''11.5.0'' ''/usr/bin/gcc'' [''gcc'', ''-c'', ''conftest.c''],
      probe_call 103 ''/c'' ''11.5.0'' ''/usr/bin/gcc'' [''gcc'', ''conftest.c''],
      probe_call 104 ''/b'' ''11.5.1'' ''/usr/bin/gcc'' [''gcc'', ''conftest.c''],
      probe_call 105 ''/b'' ''11.5.0'' ''/opt/bin/gcc'' [''gcc'', ''conftest.c'']]
   = [probe_call 102 ''/b'' ''11.5.0'' ''/usr/bin/gcc'' [''gcc'', ''-c'', ''conftest.c''],
      probe_call 103 ''/c'' ''11.5.0'' ''/usr/bin/gcc'' [''gcc'', ''conftest.c''],
      probe_call 104 ''/b'' ''11.5.1'' ''/usr/bin/gcc'' [''gcc'', ''conftest.c''],
      probe_call 105 ''/b'' ''11.5.0'' ''/opt/bin/gcc'' [''gcc'', ''conftest.c'']]"
proof -
  let ?calls = "[probe_call 100 ''/b'' ''11.5.0'' ''/usr/bin/gcc'' [''gcc'', ''conftest.c''],
      probe_call 101 ''/b'' ''11.5.0'' ''/usr/bin/gcc'' [''gcc'', ''conftest.c''],
      probe_call 102 ''/b'' ''11.5.0'' ''/usr/bin/gcc'' [''gcc'', ''-c'', ''conftest.c''],
      probe_call 103 ''/c'' ''11.5.0'' ''/usr/bin/gcc'' [''gcc'', ''conftest.c''],
      probe_call 104 ''/b'' ''11.5.1'' ''/usr/bin/gcc'' [''gcc'', ''conftest.c''],
      probe_call 105 ''/b'' ''11.5.0'' ''/opt/bin/gcc'' [''gcc'', ''conftest.c'']]"
  have "filter (\<lambda>cc. call_exitcode cc = Some 0 \<and> open_files cc \<noteq> []
                 \<and> multiplicity ?calls (command cc) = 1) ?calls
      = [probe_call 102 ''/b'' ''11.5.0'' ''/usr/bin/gcc'' [''gcc'', ''-c'', ''conftest.c''],
         probe_call 103 ''/c'' ''11.5.0'' ''/usr/bin/gcc'' [''gcc'', ''conftest.c''],
         probe_call 104 ''/b'' ''11.5.1'' ''/usr/bin/gcc'' [''gcc'', ''conftest.c''],
         probe_call 105 ''/b'' ''11.5.0'' ''/opt/bin/gcc'' [''gcc'', ''conftest.c'']]"
    by code_simp
  with compiler_calls_prefilter_exact [of ?calls] show ?thesis by simp
qed

subsection \<open>Rewriting to a preprocessor command\<close>




lemma rewrite_for_ids_unknown:
  "\<forall>i \<in> set is. i \<notin> set [''lcc'', ''gcc'', ''clang''] \<Longrightarrow>
   rewrite_for_ids h pc oi f idx srcs is = (h, Inl AssertionError)"
  by (induction "is") auto









subsection \<open>Syscall parser\<close>

lemma trace_ok_stamp: "trace_ok proc \<Longrightarrow> trace_ok (update_timestamps proc v)"
  by (auto simp: trace_ok_def update_timestamps_def min_def max_def split: option.splits)

lemma update_timestamps_fields:
  "ts_start (update_timestamps proc v) \<noteq> None" "pid (update_timestamps proc v) = pid proc"
  "syscall (update_timestamps proc v) = syscall proc"
  by (simp_all add: update_timestamps_def)

lemma trace_ok_fields:
  "trace_ok proc \<Longrightarrow> trace_ok (proc\<lparr>killedby := k\<rparr>)"
  "trace_ok proc \<Longrightarrow> trace_ok (proc\<lparr>exitcode := x\<rparr>)"
  "trace_ok proc \<Longrightarrow> allow sc \<Longrightarrow> trace_ok (proc\<lparr>syscall := syscall proc @ [sc]\<rparr>)"
  by (auto simp: trace_ok_def allow_def split: if_splits)

lemma parse_lines_ok:
  "parse_lines rl dx da proc lines = Inr proc' \<Longrightarrow> trace_ok proc \<Longrightarrow>
   trace_ok proc'
   \<and> (ts_start proc \<noteq> None \<or> (\<exists>line \<in> set lines. rl (str_rstrip line) \<noteq> None)
        \<longrightarrow> ts_start proc' \<noteq> None)
   \<and> pid proc' = pid proc"
proof (induction lines arbitrary: proc)
  case Nil
  then show ?case by simp
next
  case (Cons line rest)
  show ?case
  proof (cases "rl (str_rstrip line)")
    case None
    with Cons.prems have "parse_lines rl dx da proc rest = Inr proc'" by simp
    from Cons.IH [OF this Cons.prems(2)] None show ?thesis by simp
  next
    case (Some m)
    let ?p1 = "update_timestamps proc (g_timestamp m)"
    have ok1: "trace_ok ?p1" by (rule trace_ok_stamp [OF Cons.prems(2)])
    note f1 = update_timestamps_fields [of proc "g_timestamp m"]
    have "\<exists>p2. parse_lines rl dx da p2 rest = Inr proc' \<and> trace_ok p2
               \<and> ts_start p2 \<noteq> None \<and> pid p2 = pid proc"
    proof (cases "g_killedby m \<noteq> None")
      case True
      with Cons.prems(1) Some ok1 f1 show ?thesis
        by (intro exI [of _ "?p1\<lparr>killedby := g_killedby m\<rparr>"]) (simp add: trace_ok_fields)
    next
      case nk: False
      show ?thesis
      proof (cases "g_exitcode m \<noteq> None")
        case True
        with nk Cons.prems(1) Some ok1 f1 show ?thesis
          by (intro exI [of _ "?p1\<lparr>exitcode := g_exitcode m\<rparr>"]) (simp add: trace_ok_fields)
      next
        case ne: False
        show ?thesis
        proof (cases "g_syscall m")
          case None
          with nk ne Cons.prems(1) Some ok1 f1 show ?thesis
            by (intro exI [of _ ?p1]) simp
        next
          case sy: (Some v_syscall)
          from nk ne sy Cons.prems(1) Some obtain rv sc where
            rv: "g_returnvalue m = Some rv" and
            run: "(if allow sc
                   then parse_lines rl dx da (?p1\<lparr>syscall := syscall ?p1 @ [sc]\<rparr>) rest
                   else parse_lines rl dx da ?p1 rest) = Inr proc'"
            by (auto simp: Let_def split: option.splits sum.splits)
          show ?thesis
          proof (cases "allow sc")
            case True
            let ?p2 = "?p1\<lparr>syscall := syscall ?p1 @ [sc]\<rparr>"
            have a: "trace_ok ?p2" by (rule trace_ok_fields(3) [OF ok1 True])
            have b: "ts_start ?p2 \<noteq> None" "pid ?p2 = pid proc" using f1(1,2) by simp_all
            from run True have c: "parse_lines rl dx da ?p2 rest = Inr proc'" by simp
            from a b c show ?thesis by blast
          next
            case False
            with run ok1 f1 show ?thesis by (intro exI [of _ ?p1]) simp
          qed
        qed
      qed
    qed
    then obtain p2 where p2: "parse_lines rl dx da p2 rest = Inr proc'" "trace_ok p2"
        "ts_start p2 \<noteq> None" "pid p2 = pid proc" by blast
    from Cons.IH [OF p2(1) p2(2)] p2(3,4) show ?thesis by simp
  qed
qed

text \<open>
  Claim C7. In every trace the parser returns, no stored record has a negative return
  value, the stored records are in non-decreasing order of timestamp, and when some line
  of the file matched the line expression the start timestamp is at most the end
  timestamp. This holds whatever the regular expressions match.
\<close>

theorem parse_fd_invariants:
  assumes "parse_fd regex_line decode_xstr decode_args p lines = Inr proc"
  shows "(\<forall>sc \<in> set (syscall proc). 0 \<le> returnvalue sc)
       \<and> sorted (map ts (syscall proc))
       \<and> ((\<exists>line \<in> set lines. regex_line (str_rstrip line) \<noteq> None)
            \<longrightarrow> (\<exists>s e. ts_start proc = Some s \<and> ts_end proc = Some e \<and> s \<le> e))
       \<and> pid proc = p"
proof -
  let ?p0 = "\<lparr>pid = p, ts_start = None, ts_end = None, exitcode = None, killedby = None,
              syscall = []\<rparr> :: 'a proc_trace"
  from assms obtain q where q: "parse_lines regex_line decode_xstr decode_args ?p0 lines = Inr q"
      and proc: "proc = q\<lparr>syscall := sort_key ts (syscall q)\<rparr>"
    by (auto simp: parse_fd_def split: sum.splits)
  have "trace_ok ?p0" by (simp add: trace_ok_def)
  from parse_lines_ok [OF q this]
  have ok: "trace_ok q"
    and st: "(\<exists>line \<in> set lines. regex_line (str_rstrip line) \<noteq> None) \<longrightarrow> ts_start q \<noteq> None"
    and pd: "pid q = p"
    by simp_all
  have 1: "\<forall>sc \<in> set (syscall proc). 0 \<le> returnvalue sc"
    using ok by (simp add: proc trace_ok_def)
  have 2: "sorted (map ts (syscall proc))" by (simp add: proc)
  have 3: "(\<exists>line \<in> set lines. regex_line (str_rstrip line) \<noteq> None)
            \<longrightarrow> (\<exists>s e. ts_start proc = Some s \<and> ts_end proc = Some e \<and> s \<le> e)"
    using ok st by (auto simp: proc trace_ok_def split: option.splits)
  from 1 2 3 pd show ?thesis by (simp add: proc)
qed


theorem parse_fd_invariants_witness:
  "\<exists>proc. parse_fd sample_regex_line id sample_decode_args 42 sample_lines = Inr proc
     \<and> map ts (syscall proc) = [3, 5]
     \<and> map returnvalue (syscall proc) = [77, 3]
     \<and> ts_start proc = Some 3 \<and> ts_end proc = Some 6
     \<and> (\<forall>sc \<in> set (syscall proc). 0 \<le> returnvalue sc)
     \<and> sorted (map ts (syscall proc))"
proof -
  let ?P = "\<lparr>pid = 42, ts_start = Some 3, ts_end = Some 6, exitcode = Some 0, killedby = None,
           syscall =
             [\<lparr>ts = 3, name = ''vfork'', returnvalue = 77, returnfile = None,
               error = None, args_raw = None, sc_args = []\<rparr>,
              \<lparr>ts = 5, name = ''openat'', returnvalue = 3, returnfile = None,
               error = None, args_raw = None,
               sc_args = [Str ''AT_FDCWD, a.c, O_RDONLY'']\<rparr>]\<rparr> :: int proc_trace"
  have p: "parse_fd sample_regex_line id sample_decode_args 42 sample_lines = Inr ?P"
    by code_simp
  have v: "map ts (syscall ?P) = [3, 5]" "map returnvalue (syscall ?P) = [77, 3]"
      "ts_start ?P = Some 3" "ts_end ?P = Some 6"
    by simp_all
  from parse_fd_invariants [OF p]
  have i: "\<forall>sc \<in> set (syscall ?P). 0 \<le> returnvalue sc" "sorted (map ts (syscall ?P))"
    by blast+
  show ?thesis
    by (rule exI [of _ ?P]) (intro conjI p v i)
qed

subsection \<open>Root process of the trace store\<close>

lemma opt_less_Some [simp]: "opt_less (Some a) (Some b) = (a < b)"
  by (simp add: opt_less_def)

lemma opt_le_Some [simp]: "opt_le (Some a) (Some b) = (a \<le> b)"
  by (simp add: opt_le_def)












subsection \<open>Working directory in the process walker\<close>










end
